theory Spec2Isabelle
  imports Complex_Main "HOL-Library.Sublist"
begin

section \<open>Conversation logging to the map service: \<open>ai_ta_backend/nomic_logging.py\<close>\<close>

text \<open>
  The module keeps one map ("project") per course at a remote embedding-index service.
  \<open>log_convo_to_nomic\<close> adds one data point for a conversation, or replaces the point
  the conversation already has; \<open>create_nomic_map\<close> builds the map of a course from
  the conversation rows of the relational store once there are enough of them. The first
  function is wrapped by the retry decorator of the \<open>backoff\<close> package.

  Strings are \<open>string\<close>s holding UTF-8 bytes. The code only concatenates strings and
  splits them at the ASCII separators \<open>"\n"\<close> and \<open>": "\<close>, which never occur inside
  the encoding of another character, so bytes and code points behave alike here.
\<close>

subsection \<open>Exceptions\<close>

datatype exn =
    IndexError
  | KeyError string
  | ValueError
  | OverflowError
  | TypeError
  | RemoteError string
  | Wrapped string

text \<open>
  \<open>IndexError\<close>, \<open>KeyError k\<close> (for the missing key \<open>k\<close>), \<open>ValueError\<close>,
  \<open>OverflowError\<close> and \<open>TypeError\<close> are raised by Python, pandas and numpy
  themselves; \<open>RemoteError s\<close> is an exception raised by a
  collaborator (map service, embedding model, relational store) whose \<open>str(e)\<close> is
  \<open>s\<close>; \<open>Wrapped s\<close> is \<open>Exception({"exception": s})\<close>, raised at line 195.
  \<open>str_exn\<close> is \<open>str(e)\<close>. The numbers that numpy puts into the message of an index
  error are left out, and every \<open>TypeError\<close> has the text of the one that
  \<open>giveup_hdlr\<close> raises: the code compares \<open>str(e)\<close> only with the four messages
  below.
\<close>

fun str_exn :: "exn \<Rightarrow> string" where
  "str_exn IndexError = ''list index out of range''"
| "str_exn (KeyError k) = [CHR 0x27] @ k @ [CHR 0x27]"
| "str_exn ValueError = ''cannot convert float NaN to integer''"
| "str_exn OverflowError = ''Python int too large to convert to C long''"
| "str_exn TypeError = ''string indices must be integers''"
| "str_exn (RemoteError s) = s"
| "str_exn (Wrapped s) = ''{'' @ [CHR 0x27] @ ''exception'' @ [CHR 0x27] @ '': '' @ [CHR 0x27] @ s @ [CHR 0x27] @ ''}''"

definition LOCK_EXCEPTIONS :: "string list" where
  "LOCK_EXCEPTIONS =
     [''Project is locked for state access! Please wait until the project is unlocked to access embeddings.'',
      ''Project is locked for state access! Please wait until the project is unlocked to access data.'',
      ''Project is currently indexing and cannot ingest new datums. Try again later.'']"

definition NOT_CONFIGURED :: string where
  "NOT_CONFIGURED = ''You must specify a unique_id_field when creating a new project.''"

subsection \<open>Messages, conversations, rows\<close>

text \<open>
  A message's content is a string or a list of parts (dictionaries); of a part only the
  value under the key \<open>'text'\<close> is read, \<open>None\<close> when the part has no such key.
\<close>

type_synonym part = "string option"

datatype content = Text string | Parts "part list"

record message =
  role :: string
  content :: content

text \<open>
  The argument \<open>conversation\<close> (called \<open>log_data\<close> in \<open>create_nomic_map\<close>): the
  dictionary under its key \<open>'conversation'\<close>, with the keys \<open>'messages'\<close>,
  \<open>'user_email'\<close> and \<open>'id'\<close>. The fields carry the names of the locals of
  \<open>create_nomic_map\<close> that hold them.
\<close>

record convo_log =
  log_messages :: "message list"
  log_user_email :: string
  log_conversation_id :: string

text \<open>
  The argument as the caller hands it over: the dictionary under the key
  \<open>'conversation'\<close>, \<open>None\<close> when the argument has no such key, and in it each of the
  three keys with its value, \<open>None\<close> when the key is missing. Lines 69-71 read the
  three values in this order, before the \<open>try\<close>; a missing key raises \<open>KeyError\<close>.
  The course name is \<open>None\<close> when the caller hands over something that is no string:
  line 78 concatenates it to a string, before the \<open>try\<close> too, and raises
  \<open>TypeError\<close> then.
\<close>

record conversation_dict =
  d_messages :: "message list option"
  d_user_email :: "string option"
  d_id :: "string option"

definition read_args :: "string option \<Rightarrow> conversation_dict option \<Rightarrow> exn + (string \<times> convo_log)" where
  "read_args course_arg conversation_arg =
     (case conversation_arg of
        None \<Rightarrow> Inl (KeyError ''conversation'')
      | Some d \<Rightarrow>
          (case d_messages d of
             None \<Rightarrow> Inl (KeyError ''messages'')
           | Some messages \<Rightarrow>
               (case d_user_email d of
                  None \<Rightarrow> Inl (KeyError ''user_email'')
                | Some user_email \<Rightarrow>
                    (case d_id d of
                       None \<Rightarrow> Inl (KeyError ''id'')
                     | Some conversation_id \<Rightarrow>
                         (case course_arg of
                            None \<Rightarrow> Inl TypeError
                          | Some course_name \<Rightarrow>
                              Inr (course_name,
                                   \<lparr>log_messages = messages, log_user_email = user_email,
                                    log_conversation_id = conversation_id\<rparr>))))))"

text \<open>
  The argument that holds the three values of \<open>c\<close>. Together with a course name that
  is a string, these are the arguments that lines 69-78 read without an exception
  (\<open>read_args_iff\<close> below).
\<close>

definition dict_of :: "convo_log \<Rightarrow> conversation_dict option" where
  "dict_of c =
     Some \<lparr>d_messages = Some (log_messages c), d_user_email = Some (log_user_email c),
           d_id = Some (log_conversation_id c)\<rparr>"

text \<open>
  Time stamps are kept at the resolution of \<open>'%Y-%m-%d %H:%M:%S'\<close>, as a number of
  seconds; \<open>pd.to_datetime(x).strftime('%Y-%m-%d %H:%M:%S')\<close> leaves such a value as
  it is.
\<close>

type_synonym timestamp = nat

text \<open>
  A cell of the column \<open>id\<close>: an integer, or pandas' \<open>NaN\<close>, which is what
  \<open>max()\<close> of a column without rows gives and what \<open>NaN + 1\<close> stays. After
  \<open>astype(int)\<close> the integers of the column are numpy's \<open>int64\<close>: they lie from
  \<open>- 2 ^ 63\<close> to \<open>2 ^ 63 - 1\<close>, and arithmetic on them wraps around.
\<close>

datatype number = Whole int | NaN

definition in_int64 :: "int \<Rightarrow> bool" where
  "in_int64 k = (- (2 ^ 63) \<le> k \<and> k < 2 ^ 63)"

definition wrap_int64 :: "int \<Rightarrow> int" where
  "wrap_int64 k = (k + 2 ^ 63) mod 2 ^ 64 - 2 ^ 63"

text \<open>
  One row of metadata: a row of the frame read from the map (\<open>map_metadata_df\<close>)
  and the row handed to the map service with a new point. \<open>first_query\<close> is a content
  because line 350 stores \<open>log_messages[0]['content']\<close> as it is.
\<close>

record metadata =
  course :: string
  conversation :: string
  conversation_id :: string
  row_id :: number
  user_email :: string
  first_query :: content
  created_at :: timestamp
  modified_at :: timestamp

text \<open>A row of the table \<open>llm-convo-monitor\<close> of the relational store.\<close>

record convo_row =
  h_course_name :: string
  h_user_email :: string
  h_created_at :: timestamp
  h_convo_id :: string
  h_messages :: "message list"

subsection \<open>Python's list and string primitives\<close>

text \<open>\<open>xs[i]\<close> for a list or a numpy array: negative indices count from the end.\<close>

definition py_index :: "'a list \<Rightarrow> int \<Rightarrow> exn + 'a" where
  "py_index xs i =
     (if 0 \<le> i \<and> i < int (length xs) then Inr (xs ! nat i)
      else if i < 0 \<and> - int (length xs) \<le> i then Inr (xs ! nat (int (length xs) + i))
      else Inl IndexError)"

text \<open>\<open>xs[-2:]\<close>: the last two elements, or all of a shorter list.\<close>

definition last2 :: "'a list \<Rightarrow> 'a list" where
  "last2 xs = drop (length xs - 2) xs"

text \<open>
  \<open>s.split(sep)\<close> for a non-empty separator: the pieces between the occurrences of
  \<open>sep\<close>, found from the left without overlap. (Python raises for an empty
  separator; the code splits at \<open>"\n"\<close> and \<open>": "\<close> only.)
\<close>

fun split_py :: "string \<Rightarrow> string \<Rightarrow> string list" where
  "split_py sep [] = [[]]"
| "split_py sep (c # cs) =
     (if prefix sep (c # cs) then [] # split_py sep (drop (length sep - 1) cs)
      else (case split_py sep cs of
              [] \<Rightarrow> [[c]]
            | p # ps \<Rightarrow> (c # p) # ps))"

subsection \<open>Formatting a transcript (lines 109-120, 148-159, 278-290, 296-306, 329-339)\<close>

definition newline :: string where
  "newline = [CHR 0x0A]"

text \<open>The two markers, a raised hand and a robot face, each followed by a space.\<close>

definition emoji_user :: string where
  "emoji_user = [CHR 0xF0, CHR 0x9F, CHR 0x99, CHR 0x8B, CHR 0x20]"

definition emoji_other :: string where
  "emoji_other = [CHR 0xF0, CHR 0x9F, CHR 0xA4, CHR 0x96, CHR 0x20]"

text \<open>
  \<open>c[0]['text']\<close> when \<open>c\<close> is a list, \<open>c\<close> itself otherwise (lines 115-118,
  144-145).
\<close>

definition content_text :: "content \<Rightarrow> exn + string" where
  "content_text c =
     (case c of
        Text s \<Rightarrow> Inr s
      | Parts ps \<Rightarrow>
          (case ps of
             [] \<Rightarrow> Inl IndexError
           | p # _ \<Rightarrow> (case p of None \<Rightarrow> Inl (KeyError ''text'') | Some s \<Rightarrow> Inr s)))"

definition message_line :: "message \<Rightarrow> exn + string" where
  "message_line m =
     (let emoji = (if role m = ''user'' then emoji_user else emoji_other)
      in case content_text (content m) of
           Inl e \<Rightarrow> Inl e
         | Inr text \<Rightarrow> Inr (newline @ ''>>> '' @ emoji @ role m @ '': '' @ text @ newline))"

text \<open>
  The loop \<open>for message in messages: ... acc += line\<close>: it stops at the first message
  whose text cannot be read.
\<close>

fun append_lines :: "string \<Rightarrow> message list \<Rightarrow> exn + string" where
  "append_lines acc [] = Inr acc"
| "append_lines acc (m # ms) =
     (case message_line m of
        Inl e \<Rightarrow> Inl e
      | Inr l \<Rightarrow> append_lines (acc @ l) ms)"

subsection \<open>What the collaborators answer\<close>

text \<open>
  Everything outside the module is a value of this record: what each remote call of one
  run of the undecorated function answers, an exception (\<open>Some e\<close>, \<open>Inl e\<close>) or
  a result. \<open>'v\<close> is the type of an embedding vector; the code never looks into one.
  \<^item> \<open>login_res\<close>: \<open>nomic.login\<close> at line 55; \<open>map_login_res\<close>: the same call at
    line 235; \<open>client_res\<close>: \<open>supabase.create_client\<close> at line 240. These three run
    outside every \<open>try\<close>.
  \<^item> \<open>project_res\<close>: lines 84-87, the frame \<open>project.maps[1].data.df\<close> and the
    array \<open>project.maps[1].embeddings.latent\<close>. The frame has the default index of
    a frame made by \<open>to_pandas()\<close>, the positions from 0, and the array holds at
    position \<open>i\<close> the vector of the point in row \<open>i\<close> of the frame.
  \<^item> \<open>delete_res\<close>: \<open>project.delete_data\<close>, line 102.
  \<^item> \<open>embed_res\<close>: \<open>embed_documents\<close>, lines 177 and 358.
  \<^item> \<open>lock_res\<close>: lines 180-181, opening the project again and waiting for its
    lock; \<open>add_res\<close>: \<open>add_embeddings\<close>, line 182; \<open>rebuild_res\<close>:
    \<open>rebuild_maps\<close>, line 183.
  \<^item> \<open>query_res\<close>: the query of line 246; \<open>create_res\<close>: \<open>atlas.map_embeddings\<close>
    and \<open>create_index\<close>, lines 363-371.
  \<^item> \<open>clock k\<close>: what \<open>datetime.datetime.now()\<close> gives at the \<open>k\<close>-th reading
    (from 0) that the \<open>try\<close> block of \<open>log_convo_to_nomic\<close> makes; it makes one, at
    line 123 or at line 162. \<open>map_clock k\<close>: what it gives at the \<open>k\<close>-th reading
    (from 0) that \<open>create_nomic_map\<close> makes, whatever was read before the call.
\<close>

record 'v remote =
  login_res :: "exn option"
  project_res :: "exn + (metadata list \<times> 'v list)"
  delete_res :: "exn option"
  embed_res :: "content list \<Rightarrow> exn + 'v list"
  lock_res :: "exn option"
  add_res :: "exn option"
  rebuild_res :: "exn option"
  map_login_res :: "exn option"
  client_res :: "exn option"
  query_res :: "exn + convo_row list"
  create_res :: "exn option"
  clock :: "nat \<Rightarrow> timestamp"
  map_clock :: "nat \<Rightarrow> timestamp"

text \<open>
  What a run asks of the outside, in order: an event is recorded when the call is made,
  whatever the call answers. Of the \<open>print\<close> calls only the one of \<open>giveup_hdlr\<close>
  (line 32) and the one that announces the creation of a map (line 190) are recorded.
  \<open>Backoff w n\<close> is the pause after the \<open>n\<close>-th failed try; \<open>w\<close> is the value
  that \<open>backoff_strategy\<close> produced for it.
\<close>

datatype 'v event =
    Deleted number
  | Embedded "content list"
  | Added "'v list" metadata
  | Rebuilt
  | Bulk_created "'v list" "metadata list"
  | Captured exn
  | Printed_giveup string
  | Printed_create_map
  | Backoff rat nat

subsection \<open>The frame of the map (lines 89-99)\<close>

text \<open>
  \<open>map_metadata_df['id'].astype(int)\<close>, cell by cell: it fails on a cell that is not
  a number and on an integer that does not fit into \<open>int64\<close>.
\<close>

fun astype_int :: "number list \<Rightarrow> exn + int list" where
  "astype_int [] = Inr []"
| "astype_int (NaN # ns) = Inl ValueError"
| "astype_int (Whole k # ns) =
     (if in_int64 k
      then (case astype_int ns of Inl e \<Rightarrow> Inl e | Inr ks \<Rightarrow> Inr (k # ks))
      else Inl OverflowError)"

text \<open>\<open>map_metadata_df['id'].max()\<close>: \<open>NaN\<close> for a column without rows.\<close>

fun series_max :: "int list \<Rightarrow> number" where
  "series_max [] = NaN"
| "series_max (k # ks) = Whole (fold max ks k)"

text \<open>
  \<open>last_id + 1\<close>, lines 130 and 168: \<open>last_id\<close> is an \<open>int64\<close> of numpy, and
  the sum wraps around, from \<open>2 ^ 63 - 1\<close> to \<open>- 2 ^ 63\<close>.
\<close>

fun plus_one :: "number \<Rightarrow> number" where
  "plus_one (Whole k) = Whole (wrap_int64 (k + 1))"
| "plus_one NaN = NaN"

text \<open>
  \<open>conversation_id in map_metadata_df.values\<close>: the string is looked for in every cell
  of the frame, not only in the column \<open>conversation_id\<close>. A cell that holds a number
  or a time stamp is not equal to a string.
\<close>

definition in_values :: "string \<Rightarrow> metadata list \<Rightarrow> bool" where
  "in_values cid rows =
     (\<exists>r \<in> set rows. cid = course r \<or> cid = conversation r \<or> cid = conversation_id r
        \<or> cid = user_email r \<or> Text cid = first_query r)"

text \<open>
  \<open>prev_data = map_metadata_df[map_metadata_df['conversation_id'] == conversation_id]\<close>
  and \<open>prev_data.index.values[0]\<close>: the position and the row of the first row of that
  conversation; the search starts at position \<open>k\<close>.
\<close>

fun prev_data :: "string \<Rightarrow> nat \<Rightarrow> metadata list \<Rightarrow> (nat \<times> metadata) list" where
  "prev_data cid k [] = []"
| "prev_data cid k (r # rs) =
     (if conversation_id r = cid then (k, r) # prev_data cid (Suc k) rs
      else prev_data cid (Suc k) rs)"

text \<open>
  Lines 94-99: the first row of the conversation and the vector
  \<open>map_embeddings_df[prev_index - 1]\<close>, made a batch of one row by \<open>reshape\<close>.
\<close>

definition locate_prev :: "string \<Rightarrow> metadata list \<Rightarrow> 'v list \<Rightarrow> exn + (metadata \<times> 'v list)" where
  "locate_prev cid rows latent =
     (case prev_data cid 0 rows of
        [] \<Rightarrow> Inl IndexError
      | (prev_index, prev) # _ \<Rightarrow>
          (case py_index latent (int prev_index - 1) of
             Inl e \<Rightarrow> Inl e
           | Inr v \<Rightarrow> Inr (prev, [v])))"

subsection \<open>Building the row of the new point\<close>

text \<open>Line 105: \<open>prev_convo.split("\n")[1].split(": ")[1]\<close>.\<close>

definition first_message_of :: "string \<Rightarrow> exn + string" where
  "first_message_of prev_convo =
     (case py_index (split_py newline prev_convo) 1 of
        Inl e \<Rightarrow> Inl e
      | Inr line \<Rightarrow> py_index (split_py '': '' line) 1)"

text \<open>Lines 105-135, the row of a conversation that has a point already.\<close>

definition update_metadata ::
  "string \<Rightarrow> convo_log \<Rightarrow> metadata \<Rightarrow> number \<Rightarrow> timestamp \<Rightarrow> exn + metadata" where
  "update_metadata course_name c prev last_id current_time =
     (case first_message_of (conversation prev) of
        Inl e \<Rightarrow> Inl e
      | Inr first_message \<Rightarrow>
          (case append_lines (conversation prev) (last2 (log_messages c)) of
             Inl e \<Rightarrow> Inl e
           | Inr prev_convo \<Rightarrow>
               Inr \<lparr>course = course_name,
                    conversation = prev_convo,
                    conversation_id = log_conversation_id c,
                    row_id = plus_one last_id,
                    user_email = log_user_email c,
                    first_query = Text first_message,
                    created_at = created_at prev,
                    modified_at = current_time\<rparr>))"

text \<open>
  Lines 143-145: the text of the first message, \<open>messages[0]['content']\<close> or the text
  of its first part.
\<close>

definition first_message_text :: "message list \<Rightarrow> exn + string" where
  "first_message_text ms =
     (case ms of
        [] \<Rightarrow> Inl IndexError
      | m # _ \<Rightarrow> content_text (content m))"

text \<open>Lines 140-173, the row of a conversation that has no point yet.\<close>

definition insert_metadata ::
  "string \<Rightarrow> convo_log \<Rightarrow> number \<Rightarrow> timestamp \<Rightarrow> exn + metadata" where
  "insert_metadata course_name c last_id current_time =
     (case first_message_text (log_messages c) of
        Inl e \<Rightarrow> Inl e
      | Inr first_message \<Rightarrow>
          (case append_lines [] (log_messages c) of
             Inl e \<Rightarrow> Inl e
           | Inr conversation_string \<Rightarrow>
               Inr \<lparr>course = course_name,
                    conversation = conversation_string,
                    conversation_id = log_conversation_id c,
                    row_id = plus_one last_id,
                    user_email = log_user_email c,
                    first_query = Text first_message,
                    created_at = current_time,
                    modified_at = current_time\<rparr>))"

subsection \<open>\<open>log_convo_to_nomic\<close>, one run of its body\<close>

text \<open>Lines 180-186: the new point is added and the map rebuilt.\<close>

definition add_point ::
  "'v remote \<Rightarrow> string \<Rightarrow> 'v list \<Rightarrow> metadata \<Rightarrow> (exn + string) \<times> 'v event list" where
  "add_point env course_name embeddings md =
     (case lock_res env of
        Some e \<Rightarrow> (Inl e, [])
      | None \<Rightarrow>
          (case add_res env of
             Some e \<Rightarrow> (Inl e, [Added embeddings md])
           | None \<Rightarrow>
               (case rebuild_res env of
                  Some e \<Rightarrow> (Inl e, [Added embeddings md, Rebuilt])
                | None \<Rightarrow>
                    (Inr (''Successfully logged for '' @ course_name),
                     [Added embeddings md, Rebuilt]))))"

text \<open>Lines 93-135 and 180-186: the conversation is in the frame.\<close>

definition update_point ::
  "'v remote \<Rightarrow> string \<Rightarrow> convo_log \<Rightarrow> metadata list \<Rightarrow> 'v list \<Rightarrow> number
     \<Rightarrow> (exn + string) \<times> 'v event list" where
  "update_point env course_name c map_metadata_df map_embeddings_df last_id =
     (case locate_prev (log_conversation_id c) map_metadata_df map_embeddings_df of
        Inl e \<Rightarrow> (Inl e, [])
      | Inr (prev, embeddings) \<Rightarrow>
          (case delete_res env of
             Some e \<Rightarrow> (Inl e, [Deleted (row_id prev)])
           | None \<Rightarrow>
               (case update_metadata course_name c prev last_id (clock env 0) of
                  Inl e \<Rightarrow> (Inl e, [Deleted (row_id prev)])
                | Inr md \<Rightarrow>
                    (case add_point env course_name embeddings md of
                       (r, evs) \<Rightarrow> (r, Deleted (row_id prev) # evs)))))"

text \<open>Lines 137-186: the conversation is not in the frame.\<close>

definition insert_point ::
  "'v remote \<Rightarrow> string \<Rightarrow> convo_log \<Rightarrow> number \<Rightarrow> (exn + string) \<times> 'v event list" where
  "insert_point env course_name c last_id =
     (case insert_metadata course_name c last_id (clock env 0) of
        Inl e \<Rightarrow> (Inl e, [])
      | Inr md \<Rightarrow>
          (let user_queries = [first_query md]
           in case embed_res env user_queries of
                Inl e \<Rightarrow> (Inl e, [Embedded user_queries])
              | Inr embeddings \<Rightarrow>
                  (case add_point env course_name embeddings md of
                     (r, evs) \<Rightarrow> (r, Embedded user_queries # evs))))"

text \<open>The \<open>try\<close> block, lines 83-186.\<close>

definition log_convo_try ::
  "'v remote \<Rightarrow> string \<Rightarrow> convo_log \<Rightarrow> (exn + string) \<times> 'v event list" where
  "log_convo_try env course_name c =
     (case project_res env of
        Inl e \<Rightarrow> (Inl e, [])
      | Inr (map_metadata_df, map_embeddings_df) \<Rightarrow>
          (case astype_int (map row_id map_metadata_df) of
             Inl e \<Rightarrow> (Inl e, [])
           | Inr ids \<Rightarrow>
               (let last_id = series_max ids
                in if in_values (log_conversation_id c) map_metadata_df
                   then update_point env course_name c map_metadata_df map_embeddings_df last_id
                   else insert_point env course_name c last_id)))"

subsection \<open>\<open>create_nomic_map\<close>\<close>

text \<open>
  Lines 265-323, the body of the loop for one row with the counter at \<open>i\<close>: the first
  query, the row of metadata and whether the row is the conversation being logged.
\<close>

definition row_metadata ::
  "(nat \<Rightarrow> timestamp) \<Rightarrow> convo_log \<Rightarrow> int \<Rightarrow> convo_row \<Rightarrow> exn + (content \<times> metadata \<times> bool)" where
  "row_metadata clk c i row =
     (case first_message_text (h_messages row) of
        Inl e \<Rightarrow> Inl e
      | Inr first_message \<Rightarrow>
          (case append_lines [] (h_messages row) of
             Inl e \<Rightarrow> Inl e
           | Inr conversation0 \<Rightarrow>
               (case (if h_convo_id row = log_conversation_id c
                      then append_lines conversation0 (log_messages c)
                      else Inr conversation0) of
                  Inl e \<Rightarrow> Inl e
                | Inr conversation1 \<Rightarrow>
                    Inr (Text first_message,
                         \<lparr>course = h_course_name row,
                          conversation = conversation1,
                          conversation_id = h_convo_id row,
                          row_id = Whole i,
                          user_email = h_user_email row,
                          first_query = Text first_message,
                          created_at = h_created_at row,
                          modified_at = clk (nat (i - 1))\<rparr>,
                         h_convo_id row = log_conversation_id c))))"

text \<open>
  The loop of line 264 with its four variables \<open>user_queries\<close>, \<open>metadata\<close>, \<open>i\<close>
  and \<open>conversation_exists\<close>.
\<close>

fun rows_loop ::
  "(nat \<Rightarrow> timestamp) \<Rightarrow> convo_log \<Rightarrow> convo_row list \<Rightarrow> content list \<Rightarrow> metadata list \<Rightarrow> int \<Rightarrow> bool
     \<Rightarrow> exn + (content list \<times> metadata list \<times> int \<times> bool)" where
  "rows_loop clk c [] user_queries md i conversation_exists =
     Inr (user_queries, md, i, conversation_exists)"
| "rows_loop clk c (row # rows) user_queries md i conversation_exists =
     (case row_metadata clk c i row of
        Inl e \<Rightarrow> Inl e
      | Inr (first_message, metadata_row, matched) \<Rightarrow>
          rows_loop clk c rows (user_queries @ [first_message]) (md @ [metadata_row]) (i + 1)
            (conversation_exists \<or> matched))"

text \<open>Lines 326-354: the conversation being logged as one more row.\<close>

definition log_row ::
  "(nat \<Rightarrow> timestamp) \<Rightarrow> string \<Rightarrow> convo_log \<Rightarrow> int \<Rightarrow> exn + (content \<times> metadata)" where
  "log_row clk course_name c i =
     (case log_messages c of
        [] \<Rightarrow> Inl IndexError
      | m # _ \<Rightarrow>
          (case append_lines [] (log_messages c) of
             Inl e \<Rightarrow> Inl e
           | Inr conversation0 \<Rightarrow>
               Inr (content m,
                    \<lparr>course = course_name,
                     conversation = conversation0,
                     conversation_id = log_conversation_id c,
                     row_id = Whole i,
                     user_email = log_user_email c,
                     first_query = content m,
                     created_at = clk (nat (i - 1)),
                     modified_at = clk (nat (i - 1))\<rparr>)))"

text \<open>Lines 254-354: the queries to embed and the rows of the new map.\<close>

definition assemble ::
  "(nat \<Rightarrow> timestamp) \<Rightarrow> string \<Rightarrow> convo_log \<Rightarrow> convo_row list \<Rightarrow> exn + (content list \<times> metadata list)" where
  "assemble clk course_name c data =
     (case rows_loop clk c data [] [] 1 False of
        Inl e \<Rightarrow> Inl e
      | Inr (user_queries, md, i, conversation_exists) \<Rightarrow>
          if conversation_exists then Inr (user_queries, md)
          else (case log_row clk course_name c i of
                  Inl e \<Rightarrow> Inl e
                | Inr (q, metadata_row) \<Rightarrow> Inr (user_queries @ [q], md @ [metadata_row])))"

text \<open>The \<open>try\<close> block, lines 245-372; \<open>None\<close> is the \<open>return None\<close> of line 251.\<close>

definition create_map_try ::
  "'v remote \<Rightarrow> string \<Rightarrow> convo_log \<Rightarrow> (exn + string option) \<times> 'v event list" where
  "create_map_try env course_name c =
     (case query_res env of
        Inl e \<Rightarrow> (Inl e, [])
      | Inr data \<Rightarrow>
          if length data < 19 then (Inr None, [])
          else
            (case assemble (map_clock env) course_name c data of
               Inl e \<Rightarrow> (Inl e, [])
             | Inr (user_queries, md) \<Rightarrow>
                 (case embed_res env user_queries of
                    Inl e \<Rightarrow> (Inl e, [Embedded user_queries])
                  | Inr embeddings \<Rightarrow>
                      (case create_res env of
                         Some e \<Rightarrow> (Inl e, [Embedded user_queries, Bulk_created embeddings md])
                       | None \<Rightarrow>
                           (Inr (Some (''Successfully created Nomic map for '' @ course_name)),
                            [Embedded user_queries, Bulk_created embeddings md])))))"

text \<open>
  The whole function: the login and the client of the relational store come before the
  \<open>try\<close>, so an exception of theirs leaves the function; one raised inside the
  \<open>try\<close> ends in \<open>return "failed"\<close>, reported unless it is the missing-map message.
\<close>

definition create_nomic_map ::
  "'v remote \<Rightarrow> string \<Rightarrow> convo_log \<Rightarrow> (exn + string option) \<times> 'v event list" where
  "create_nomic_map env course_name c =
     (case map_login_res env of
        Some e \<Rightarrow> (Inl e, [])
      | None \<Rightarrow>
          (case client_res env of
             Some e \<Rightarrow> (Inl e, [])
           | None \<Rightarrow>
               (case create_map_try env course_name c of
                  (Inr r, evs) \<Rightarrow> (Inr r, evs)
                | (Inl e, evs) \<Rightarrow>
                    (Inr (Some ''failed''),
                     evs @ (if str_exn e = NOT_CONFIGURED then [] else [Captured e])))))"

subsection \<open>The body of \<open>log_convo_to_nomic\<close> and the retry decorator\<close>

text \<open>
  The \<open>try\<close> statement, lines 82-195, for arguments that have been read. The
  \<open>except\<close> clause calls \<open>create_nomic_map\<close> for the missing-map message, prints
  its result and falls off the end of the function (\<open>None\<close>); any other exception is
  raised again, wrapped. (\<open>create_nomic_map\<close> gets the argument \<open>conversation\<close>
  and reads the three values again, at lines 260-262, which cannot fail any more.)
\<close>

definition log_convo_handled ::
  "'v remote \<Rightarrow> string \<Rightarrow> convo_log \<Rightarrow> (exn + string option) \<times> 'v event list" where
  "log_convo_handled env course_name c =
     (case log_convo_try env course_name c of
        (Inr s, evs) \<Rightarrow> (Inr (Some s), evs)
      | (Inl e, evs) \<Rightarrow>
          if str_exn e = NOT_CONFIGURED
          then (case create_nomic_map env course_name c of
                  (Inl e', evs') \<Rightarrow> (Inl e', evs @ Printed_create_map # evs')
                | (Inr result, evs') \<Rightarrow> (Inr None, evs @ Printed_create_map # evs'))
          else (Inl (Wrapped (str_exn e)), evs))"

text \<open>
  The whole body, lines 55-195: the login of line 55, the reads of lines 69-71 and the
  concatenation of line 78 come before the \<open>try\<close>, so an exception of theirs leaves
  the body as it is.
\<close>

definition log_convo_body ::
  "'v remote \<Rightarrow> string option \<Rightarrow> conversation_dict option
     \<Rightarrow> (exn + string option) \<times> 'v event list" where
  "log_convo_body env course_arg conversation_arg =
     (case login_res env of
        Some e \<Rightarrow> (Inl e, [])
      | None \<Rightarrow>
          (case read_args course_arg conversation_arg of
             Inl e \<Rightarrow> (Inl e, [])
           | Inr (course_name, c) \<Rightarrow> log_convo_handled env course_name c))"

text \<open>
  \<open>giveup_hdlr\<close>, lines 21-37. \<open>(e_args,) = e.args\<close> and \<open>e_args['exception']\<close>
  read the dictionary that line 195 wraps; for any other exception \<open>e.args\<close> holds
  its message, a string, and indexing a string by \<open>'exception'\<close> raises
  \<open>TypeError\<close> from the handler itself.
\<close>

definition giveup_hdlr :: "exn \<Rightarrow> (exn + bool) \<times> 'v event list" where
  "giveup_hdlr e =
     (case e of
        Wrapped e_str \<Rightarrow>
          if e_str \<in> set LOCK_EXCEPTIONS then (Inr False, [Printed_giveup e_str])
          else (Inr True, [Printed_giveup e_str, Captured e])
      | _ \<Rightarrow> (Inl TypeError, []))"

text \<open>
  \<open>backoff_strategy\<close>, lines 46-51: \<open>backoff.expo(base=10, factor=1.5)\<close> produces
  \<open>factor * base ** n\<close> for \<open>n = 0, 1, 2, ...\<close>.
\<close>

definition backoff_strategy :: "nat \<Rightarrow> rat" where
  "backoff_strategy n = (3 / 2) * 10 ^ n"

text \<open>
  Modelled from the spec: the retry loop of the decorator of line 53,
  \<open>backoff.on_exception(backoff_strategy, Exception, max_tries=5, raise_on_giveup=False,
  giveup=giveup_hdlr, on_backoff=backoff_hdlr)\<close>, whose package is not part of the
  repository. The spec (4.6, 7) and these arguments give the loop, which is also what the
  package documents: call the target; on an exception ask \<open>giveup\<close>; when it says stop,
  or when this was try number \<open>max_tries\<close>, return \<open>None\<close>
  (\<open>raise_on_giveup=False\<close>); otherwise take the next value of the wait generator,
  call \<open>on_backoff\<close>, sleep and call the target again. The spec does not say what
  happens when \<open>giveup\<close> itself raises; nothing in the loop catches it, so it reaches
  the caller. The package sleeps for a random time of at most the generated value (its
  default jitter); \<open>Backoff\<close> records the generated value.

  \<open>on_exception left tries target\<close>: \<open>tries\<close> calls have been made, \<open>left\<close> more
  are allowed; \<open>target k\<close> is what call number \<open>k\<close> (from 0) of the body does. The
  function is started with \<open>left = max_tries\<close>, so its first equation is never reached
  from there: the last allowed call returns in the second.
\<close>

fun on_exception ::
  "nat \<Rightarrow> nat \<Rightarrow> (nat \<Rightarrow> (exn + string option) \<times> 'v event list)
     \<Rightarrow> (exn + string option) \<times> 'v event list" where
  "on_exception 0 tries target = (Inr None, [])"
| "on_exception (Suc left) tries target =
     (case target tries of
        (Inr ret, evs) \<Rightarrow> (Inr ret, evs)
      | (Inl e, evs) \<Rightarrow>
          (case giveup_hdlr e of
             (Inl e', gevs) \<Rightarrow> (Inl e', evs @ gevs)
           | (Inr stop, gevs) \<Rightarrow>
               if stop \<or> left = 0 then (Inr None, evs @ gevs)
               else (case on_exception left (Suc tries) target of
                       (r, rest) \<Rightarrow>
                         (r, evs @ gevs @ Backoff (backoff_strategy tries) (Suc tries) # rest))))"

text \<open>
  The decorated function, what a caller of \<open>log_convo_to_nomic\<close> gets: \<open>envs k\<close> is
  what the collaborators answer during call number \<open>k\<close> of the body. Every call of
  the body gets the same two arguments.
\<close>

definition max_tries :: nat where
  "max_tries = 5"

definition log_convo_to_nomic ::
  "(nat \<Rightarrow> 'v remote) \<Rightarrow> string option \<Rightarrow> conversation_dict option
     \<Rightarrow> (exn + string option) \<times> 'v event list" where
  "log_convo_to_nomic envs course_arg conversation_arg =
     on_exception max_tries 0 (\<lambda>k. log_convo_body (envs k) course_arg conversation_arg)"

subsection \<open>Reading a list of events\<close>

text \<open>
  The pauses of a run, the exceptions it reported to the error tracker
  (\<open>sentry_sdk.capture_exception\<close>) and the exception texts that \<open>giveup_hdlr\<close>
  printed on the console of the server.
\<close>

fun waits :: "'v event list \<Rightarrow> rat list" where
  "waits [] = []"
| "waits (Backoff w n # es) = w # waits es"
| "waits (e # es) = waits es"

fun captured :: "'v event list \<Rightarrow> exn list" where
  "captured [] = []"
| "captured (Captured x # es) = x # captured es"
| "captured (e # es) = captured es"

fun printed :: "'v event list \<Rightarrow> string list" where
  "printed [] = []"
| "printed (Printed_giveup s # es) = s # printed es"
| "printed (e # es) = printed es"

text \<open>
  The events of \<open>k\<close> calls of the body that each raised an exception, call \<open>j\<close> the
  wrapped text \<open>l j\<close>, and were each followed by a pause: for every call its own events,
  the print of \<open>giveup_hdlr\<close> and the pause.
\<close>

definition retried ::
  "(nat \<Rightarrow> 'v remote) \<Rightarrow> string option \<Rightarrow> conversation_dict option \<Rightarrow> (nat \<Rightarrow> string) \<Rightarrow> nat
     \<Rightarrow> 'v event list" where
  "retried envs course_arg conversation_arg l k =
     concat (map (\<lambda>j. snd (log_convo_body (envs j) course_arg conversation_arg)
                        @ [Printed_giveup (l j), Backoff (backoff_strategy j) (Suc j)])
               [0..<k])"

subsection \<open>Concrete inputs\<close>

text \<open>
  A map of two points and a run of the collaborators in which every call succeeds; the
  embedding vectors are numbered. The conversation \<open>c-2\<close> has the second point; its
  stored transcript is what the insertion of its first message wrote.
\<close>

definition ex_messages :: "message list" where
  "ex_messages =
     [\<lparr>role = ''user'', content = Text ''What is a heap?''\<rparr>,
      \<lparr>role = ''assistant'', content = Parts [Some ''A tree.'', Some ''More.'']\<rparr>,
      \<lparr>role = ''user'', content = Text ''Thanks''\<rparr>]"

definition ex_convo :: convo_log where
  "ex_convo = \<lparr>log_messages = ex_messages, log_user_email = ''ann@uni.edu'',
               log_conversation_id = ''c-2''\<rparr>"

definition ex_row_a :: metadata where
  "ex_row_a =
     \<lparr>course = ''CS101'',
      conversation = newline @ ''>>> '' @ emoji_user @ ''user: Hello'' @ newline,
      conversation_id = ''c-1'', row_id = Whole 1, user_email = ''bob@uni.edu'',
      first_query = Text ''Hello'', created_at = 100, modified_at = 100\<rparr>"

definition ex_row_b :: metadata where
  "ex_row_b =
     \<lparr>course = ''CS101'',
      conversation = newline @ ''>>> '' @ emoji_user @ ''user: What is a heap?'' @ newline,
      conversation_id = ''c-2'', row_id = Whole 2, user_email = ''ann@uni.edu'',
      first_query = Text ''What is a heap?'', created_at = 200, modified_at = 200\<rparr>"

definition ex_remote :: "nat remote" where
  "ex_remote =
     \<lparr>login_res = None,
      project_res = Inr ([ex_row_a, ex_row_b], [10, 20]),
      delete_res = None,
      embed_res = (\<lambda>qs. Inr (map (\<lambda>q. 30) qs)),
      lock_res = None,
      add_res = None,
      rebuild_res = None,
      map_login_res = None,
      client_res = None,
      query_res = Inr [],
      create_res = None,
      clock = (\<lambda>k. 1000 + k),
      map_clock = (\<lambda>k. 1000 + k)\<rparr>"

text \<open>The row that the run above hands to the map service for \<open>c-2\<close>.\<close>

definition ex_updated :: metadata where
  "ex_updated =
     \<lparr>course = ''CS101'',
      conversation =
        newline @ ''>>> '' @ emoji_user @ ''user: What is a heap?'' @ newline
        @ newline @ ''>>> '' @ emoji_other @ ''assistant: A tree.'' @ newline
        @ newline @ ''>>> '' @ emoji_user @ ''user: Thanks'' @ newline,
      conversation_id = ''c-2'', row_id = Whole 3, user_email = ''ann@uni.edu'',
      first_query = Text ''What is a heap?'', created_at = 200, modified_at = 1000\<rparr>"

text \<open>The same map service with a map that has no point at all.\<close>

definition ex_remote_empty :: "nat remote" where
  "ex_remote_empty = ex_remote\<lparr>project_res := Inr ([], [])\<rparr>"

definition ex_inserted :: metadata where
  "ex_inserted =
     \<lparr>course = ''CS101'',
      conversation =
        newline @ ''>>> '' @ emoji_user @ ''user: What is a heap?'' @ newline
        @ newline @ ''>>> '' @ emoji_other @ ''assistant: A tree.'' @ newline
        @ newline @ ''>>> '' @ emoji_user @ ''user: Thanks'' @ newline,
      conversation_id = ''c-2'', row_id = NaN, user_email = ''ann@uni.edu'',
      first_query = Text ''What is a heap?'', created_at = 1000, modified_at = 1000\<rparr>"

text \<open>
  A map of one point whose \<open>id\<close> is the largest \<open>int64\<close>, and the row that the
  insertion of \<open>c-2\<close> hands to the map service then.
\<close>

definition ex_row_max :: metadata where
  "ex_row_max = ex_row_a\<lparr>row_id := Whole 9223372036854775807\<rparr>"

definition ex_remote_max :: "nat remote" where
  "ex_remote_max = ex_remote\<lparr>project_res := Inr ([ex_row_max], [10])\<rparr>"

definition ex_inserted_wrapped :: metadata where
  "ex_inserted_wrapped = ex_inserted\<lparr>row_id := Whole (- 9223372036854775808)\<rparr>"

text \<open>
  A conversation that is not in the map of two points, and the row its insertion hands
  to the map service.
\<close>

definition ex_convo_new :: convo_log where
  "ex_convo_new = ex_convo\<lparr>log_conversation_id := ''c-9''\<rparr>"

definition ex_inserted_new :: metadata where
  "ex_inserted_new = ex_inserted\<lparr>conversation_id := ''c-9'', row_id := Whole 3\<rparr>"

text \<open>
  A map of one point whose conversation began with a query that holds the separator
  \<open>": "\<close>, the same conversation with an answer, and the row its update hands to the
  map service.
\<close>

definition ex_row_q :: metadata where
  "ex_row_q =
     \<lparr>course = ''CS101'',
      conversation = newline @ ''>>> '' @ emoji_user @ ''user: Q: what is a heap?'' @ newline,
      conversation_id = ''c-3'', row_id = Whole 7, user_email = ''eve@uni.edu'',
      first_query = Text ''Q: what is a heap?'', created_at = 300, modified_at = 300\<rparr>"

definition ex_remote_q :: "nat remote" where
  "ex_remote_q = ex_remote\<lparr>project_res := Inr ([ex_row_q], [40])\<rparr>"

definition ex_convo_q :: convo_log where
  "ex_convo_q =
     \<lparr>log_messages =
        [\<lparr>role = ''user'', content = Text ''Q: what is a heap?''\<rparr>,
         \<lparr>role = ''assistant'', content = Text ''A tree.''\<rparr>],
      log_user_email = ''eve@uni.edu'', log_conversation_id = ''c-3''\<rparr>"

definition ex_updated_q :: metadata where
  "ex_updated_q =
     \<lparr>course = ''CS101'',
      conversation =
        newline @ ''>>> '' @ emoji_user @ ''user: Q: what is a heap?'' @ newline
        @ newline @ ''>>> '' @ emoji_user @ ''user: Q: what is a heap?'' @ newline
        @ newline @ ''>>> '' @ emoji_other @ ''assistant: A tree.'' @ newline,
      conversation_id = ''c-3'', row_id = Whole 8, user_email = ''eve@uni.edu'',
      first_query = Text ''Q'', created_at = 300, modified_at = 1000\<rparr>"

text \<open>
  Collaborators whose map service is locked, whose map service fails for good, whose
  map does not exist yet, and whose login fails.
\<close>

definition ex_lock_message :: string where
  "ex_lock_message = ''Project is currently indexing and cannot ingest new datums. Try again later.''"

definition ex_remote_locked :: "nat remote" where
  "ex_remote_locked = ex_remote\<lparr>project_res := Inl (RemoteError ex_lock_message)\<rparr>"

definition ex_remote_down :: "nat remote" where
  "ex_remote_down = ex_remote\<lparr>project_res := Inl (RemoteError ''Service unavailable'')\<rparr>"

definition ex_remote_no_map :: "nat remote" where
  "ex_remote_no_map = ex_remote\<lparr>project_res := Inl (RemoteError NOT_CONFIGURED)\<rparr>"

definition ex_remote_no_login :: "nat remote" where
  "ex_remote_no_login = ex_remote\<lparr>login_res := Some (RemoteError ''Could not authorize'')\<rparr>"

text \<open>The map service is locked during the first two calls of the body and free then.\<close>

definition ex_locked_twice :: "nat \<Rightarrow> nat remote" where
  "ex_locked_twice k = (if k < 2 then ex_remote_locked else ex_remote)"

text \<open>
  Nineteen rows of the relational store for the course, each a conversation of one
  message, and collaborators for a course that has these rows and no map yet. In
  \<open>ex_history_c2\<close> the third row is the conversation \<open>c-2\<close>.
\<close>

definition ex_hist_row :: "string \<Rightarrow> convo_row" where
  "ex_hist_row s =
     \<lparr>h_course_name = ''CS101'', h_user_email = ''bob@uni.edu'', h_created_at = 50,
      h_convo_id = s, h_messages = [\<lparr>role = ''user'', content = Text ''Hello''\<rparr>]\<rparr>"

definition ex_ids :: "string list" where
  "ex_ids = [''h-01'', ''h-02'', ''h-03'', ''h-04'', ''h-05'', ''h-06'', ''h-07'', ''h-08'',
             ''h-09'', ''h-10'', ''h-11'', ''h-12'', ''h-13'', ''h-14'', ''h-15'', ''h-16'',
             ''h-17'', ''h-18'', ''h-19'']"

definition ex_history :: "convo_row list" where
  "ex_history = map ex_hist_row ex_ids"

definition ex_history_c2 :: "convo_row list" where
  "ex_history_c2 = map ex_hist_row (ex_ids[2 := ''c-2''])"

definition ex_remote_boot :: "nat remote" where
  "ex_remote_boot = ex_remote_no_map\<lparr>query_res := Inr ex_history\<rparr>"

definition ex_remote_boot_c2 :: "nat remote" where
  "ex_remote_boot_c2 = ex_remote_no_map\<lparr>query_res := Inr ex_history_c2\<rparr>"

text \<open>
  The row that \<open>create_nomic_map\<close> makes of the row \<open>s\<close> of these histories at
  position \<open>k\<close>, and the transcript of the three messages of \<open>ex_messages\<close>.
\<close>

definition ex_hello :: string where
  "ex_hello = newline @ ''>>> '' @ emoji_user @ ''user: Hello'' @ newline"

definition ex_bulk_row :: "nat \<times> string \<Rightarrow> metadata" where
  "ex_bulk_row ks =
     \<lparr>course = ''CS101'', conversation = ex_hello, conversation_id = snd ks,
      row_id = Whole (1 + int (fst ks)), user_email = ''bob@uni.edu'',
      first_query = Text ''Hello'', created_at = 50, modified_at = 1000 + fst ks\<rparr>"

definition ex_lines3 :: string where
  "ex_lines3 =
     newline @ ''>>> '' @ emoji_user @ ''user: What is a heap?'' @ newline
     @ newline @ ''>>> '' @ emoji_other @ ''assistant: A tree.'' @ newline
     @ newline @ ''>>> '' @ emoji_user @ ''user: Thanks'' @ newline"

definition ex_bulk :: "metadata list" where
  "ex_bulk =
     map ex_bulk_row (enumerate 0 ex_ids)
     @ [\<lparr>course = ''CS101'', conversation = ex_lines3, conversation_id = ''c-2'',
         row_id = Whole 20, user_email = ''ann@uni.edu'',
         first_query = Text ''What is a heap?'', created_at = 1019, modified_at = 1019\<rparr>]"

definition ex_bulk_c2 :: "metadata list" where
  "ex_bulk_c2 =
     list_update (map ex_bulk_row (enumerate 0 (ex_ids[2 := ''c-2''])))
       2 ((ex_bulk_row (2, ''c-2''))\<lparr>conversation := ex_hello @ ex_lines3\<rparr>)"


definition ex_remote_no_client :: "nat remote" where
  "ex_remote_no_client =
     ex_remote_no_map\<lparr>client_res := Some (RemoteError ''supabase_url is required'')\<rparr>"

definition ex_locked_then_boot :: "nat \<Rightarrow> nat remote" where
  "ex_locked_then_boot k = (if k < 2 then ex_remote_locked else ex_remote_boot)"

text \<open>The lines of the last two messages of \<open>ex_messages\<close>.\<close>

definition ex_lines2 :: string where
  "ex_lines2 =
     newline @ ''>>> '' @ emoji_other @ ''assistant: A tree.'' @ newline
     @ newline @ ''>>> '' @ emoji_user @ ''user: Thanks'' @ newline"

section \<open>Properties\<close>

subsection \<open>The arguments\<close>

lemma read_args_dict_of: "read_args (Some cn) (dict_of c) = Inr (cn, c)"
  by (simp add: read_args_def dict_of_def)

lemma read_args_iff: "read_args ca a = Inr (cn, c) \<longleftrightarrow> ca = Some cn \<and> a = dict_of c"
proof
  assume "read_args ca a = Inr (cn, c)"
  then show "ca = Some cn \<and> a = dict_of c"
    unfolding read_args_def dict_of_def by (auto split: option.splits)
next
  assume "ca = Some cn \<and> a = dict_of c"
  then show "read_args ca a = Inr (cn, c)" by (simp add: read_args_dict_of)
qed

lemma log_convo_body_dict:
  "log_convo_body env (Some cn) (dict_of c) =
     (case login_res env of Some e \<Rightarrow> (Inl e, []) | None \<Rightarrow> log_convo_handled env cn c)"
  by (simp add: log_convo_body_def read_args_dict_of split: option.splits)

lemma log_convo_body_unread:
  "read_args ca a = Inl e \<Longrightarrow>
     log_convo_body env ca a
       = (case login_res env of Some e' \<Rightarrow> (Inl e', []) | None \<Rightarrow> (Inl e, []))"
  by (simp add: log_convo_body_def split: option.splits)

subsection \<open>Integers of 64 bits\<close>

lemma wrap_int64_next: "in_int64 k \<Longrightarrow> k < 2 ^ 63 - 1 \<Longrightarrow> wrap_int64 (k + 1) = k + 1"
  by (simp add: wrap_int64_def in_int64_def)

lemma wrap_int64_last: "wrap_int64 (2 ^ 63 - 1 + 1) = - (2 ^ 63)"
  by (simp add: wrap_int64_def)

subsection \<open>The formatter and the frame\<close>


lemma append_lines_acc:
  "append_lines acc ms = (case append_lines [] ms of Inl e \<Rightarrow> Inl e | Inr l \<Rightarrow> Inr (acc @ l))"
proof (induction ms arbitrary: acc)
  case Nil
  show ?case by simp
next
  case (Cons m ms)
  show ?case
  proof (cases "message_line m")
    case (Inl e)
    then show ?thesis by simp
  next
    case (Inr l)
    have "append_lines (acc @ l) ms = (case append_lines [] ms of Inl e \<Rightarrow> Inl e | Inr t \<Rightarrow> Inr ((acc @ l) @ t))"
      by (rule Cons.IH)
    moreover have "append_lines l ms = (case append_lines [] ms of Inl e \<Rightarrow> Inl e | Inr t \<Rightarrow> Inr (l @ t))"
      by (rule Cons.IH)
    ultimately show ?thesis using Inr by (simp split: sum.splits)
  qed
qed

lemma append_lines_Inr:
  "append_lines acc ms = Inr t \<Longrightarrow> \<exists>tail. append_lines [] ms = Inr tail \<and> t = acc @ tail"
  by (subst (asm) append_lines_acc) (simp split: sum.splits)

lemma astype_int_Inr: "astype_int ns = Inr ks \<Longrightarrow> ns = map Whole ks"
  by (induction ns arbitrary: ks rule: astype_int.induct) (auto split: sum.splits if_splits)

lemma astype_int_range: "astype_int ns = Inr ks \<Longrightarrow> k \<in> set ks \<Longrightarrow> in_int64 k"
  by (induction ns arbitrary: ks rule: astype_int.induct) (auto split: sum.splits if_splits)

lemma series_max_Max: "ks \<noteq> [] \<Longrightarrow> series_max ks = Whole (Max (set ks))"
  by (cases ks) (simp_all flip: Max.set_eq_fold)

lemma prev_data_sound:
  "prev_data cid k rows = (p, prev) # rest \<Longrightarrow>
     k \<le> p \<and> p - k < length rows \<and> rows ! (p - k) = prev \<and> conversation_id prev = cid
       \<and> (\<forall>j < p - k. conversation_id (rows ! j) \<noteq> cid)"
proof (induction rows arbitrary: k)
  case Nil
  then show ?case by simp
next
  case (Cons r rs)
  show ?case
  proof (cases "conversation_id r = cid")
    case True
    with Cons.prems show ?thesis by simp
  next
    case False
    with Cons.prems have "prev_data cid (Suc k) rs = (p, prev) # rest" by simp
    from Cons.IH[OF this] have ih: "Suc k \<le> p" "p - Suc k < length rs" "rs ! (p - Suc k) = prev"
      "conversation_id prev = cid" "\<forall>j < p - Suc k. conversation_id (rs ! j) \<noteq> cid" by auto
    have eq: "p - k = Suc (p - Suc k)" using ih(1) by simp
    show ?thesis using ih False unfolding eq by (auto simp: less_Suc_eq_0_disj)
  qed
qed

lemma prev_data_in_values:
  "prev_data cid k rows = (p, prev) # rest \<Longrightarrow> in_values cid rows"
  using prev_data_sound[of cid k rows p prev rest] unfolding in_values_def
  by (metis nth_mem)

lemma create_map_try_no_Added: "Added embs md \<notin> set (snd (create_map_try env cn c))"
  unfolding create_map_try_def by (simp split: sum.splits option.splits prod.splits)

lemma create_nomic_map_no_Added: "Added embs md \<notin> set (snd (create_nomic_map env cn c))"
  using create_map_try_no_Added[of embs md env cn c]
  unfolding create_nomic_map_def by (auto split: sum.splits option.splits prod.splits)

lemma add_point_Added:
  "add_point env cn e m = (r, evs) \<Longrightarrow> Added embs md \<in> set evs \<Longrightarrow> embs = e \<and> md = m"
  unfolding add_point_def by (auto split: option.splits)

lemma update_point_Added:
  assumes "Added embs md \<in> set (snd (update_point env cn c rows latent last_id))"
  shows "\<exists>prev. locate_prev (log_conversation_id c) rows latent = Inr (prev, embs)
           \<and> update_metadata cn c prev last_id (clock env 0) = Inr md"
  using assms unfolding update_point_def
  by (auto split: sum.splits option.splits prod.splits dest: add_point_Added)

lemma insert_point_Added:
  assumes "Added embs md \<in> set (snd (insert_point env cn c last_id))"
  shows "insert_metadata cn c last_id (clock env 0) = Inr md \<and> embed_res env [first_query md] = Inr embs"
  using assms unfolding insert_point_def
  by (auto simp: Let_def split: sum.splits option.splits prod.splits dest: add_point_Added)

lemma log_convo_body_Added:
  assumes "Added embs md \<in> set (snd (log_convo_body env (Some cn) (dict_of c)))"
  shows "login_res env = None \<and> Added embs md \<in> set (snd (log_convo_try env cn c))"
  using assms create_nomic_map_no_Added[of embs md env cn c]
  unfolding log_convo_body_dict log_convo_handled_def by (auto split: sum.splits option.splits prod.splits if_splits)

lemma log_convo_try_Added:
  assumes "Added embs md \<in> set (snd (log_convo_try env cn c))"
  shows "\<exists>rows latent ids. project_res env = Inr (rows, latent) \<and> astype_int (map row_id rows) = Inr ids
           \<and> (if in_values (log_conversation_id c) rows
               then Added embs md \<in> set (snd (update_point env cn c rows latent (series_max ids)))
               else Added embs md \<in> set (snd (insert_point env cn c (series_max ids))))"
  using assms unfolding log_convo_try_def
  by (auto simp: Let_def split: sum.splits option.splits prod.splits if_splits)

lemma update_run:
  assumes "project_res env = Inr (rows, latent)"
    and "prev_data (log_conversation_id c) 0 rows = (p, prev) # rest"
    and "Added embs md \<in> set (snd (log_convo_body env (Some cn) (dict_of c)))"
  shows "\<exists>ids v. astype_int (map row_id rows) = Inr ids \<and> py_index latent (int p - 1) = Inr v
           \<and> embs = [v] \<and> update_metadata cn c prev (series_max ids) (clock env 0) = Inr md"
proof -
  from assms(3) have "Added embs md \<in> set (snd (log_convo_try env cn c))"
    by (simp add: log_convo_body_Added)
  from log_convo_try_Added[OF this] assms(1) obtain ids where
    ids: "astype_int (map row_id rows) = Inr ids" and
    br: "if in_values (log_conversation_id c) rows
         then Added embs md \<in> set (snd (update_point env cn c rows latent (series_max ids)))
         else Added embs md \<in> set (snd (insert_point env cn c (series_max ids)))"
    by auto
  have "in_values (log_conversation_id c) rows" using assms(2) by (rule prev_data_in_values)
  with br have "Added embs md \<in> set (snd (update_point env cn c rows latent (series_max ids)))" by simp
  from update_point_Added[OF this] obtain prev' where
    loc: "locate_prev (log_conversation_id c) rows latent = Inr (prev', embs)" and
    upd: "update_metadata cn c prev' (series_max ids) (clock env 0) = Inr md" by blast
  from loc assms(2) obtain v where "py_index latent (int p - 1) = Inr v" "prev' = prev" "embs = [v]"
    unfolding locate_prev_def by (auto split: sum.splits)
  with ids upd show ?thesis by auto
qed

subsection \<open>Splitting a string\<close>


lemma split_py_hd_prefix: "split_py sep s = p # ps \<Longrightarrow> prefix p s"
proof (induction sep s arbitrary: p ps rule: split_py.induct)
  case (1 sep)
  then show ?case by simp
next
  case (2 sep c cs)
  show ?case
  proof (cases "prefix sep (c # cs)")
    case True
    with "2.prems" show ?thesis by simp
  next
    case False
    show ?thesis
    proof (cases "split_py sep cs")
      case Nil
      with "2.prems" False show ?thesis by auto
    next
      case (Cons q qs)
      with "2.IH"(2)[OF False Cons] "2.prems" False show ?thesis by auto
    qed
  qed
qed

lemma split_py_no_sep:
  "sep \<noteq> [] \<Longrightarrow> p \<in> set (split_py sep s) \<Longrightarrow> \<not> sublist sep p"
proof (induction sep s arbitrary: p rule: split_py.induct)
  case (1 sep)
  then show ?case by simp
next
  case (2 sep c cs)
  show ?case
  proof (cases "prefix sep (c # cs)")
    case True
    with "2.prems" "2.IH"(1)[OF True "2.prems"(1)] show ?thesis by auto
  next
    case False
    show ?thesis
    proof (cases "split_py sep cs")
      case Nil
      with "2.prems" False have "p = [c]" by simp
      moreover have "\<not> prefix sep [c]" using False "2.prems"(1)
        by (cases sep) (auto simp: prefix_Cons)
      ultimately show ?thesis using "2.prems"(1) by (simp add: sublist_Cons_right)
    next
      case (Cons q qs)
      with "2.prems" False have "p = c # q \<or> p \<in> set qs" by simp
      then show ?thesis
      proof
        assume p: "p = c # q"
        have pq: "prefix q cs" using Cons by (rule split_py_hd_prefix)
        have "\<not> sublist sep q" using "2.IH"(2)[OF False "2.prems"(1), of q] Cons by simp
        moreover have "\<not> prefix sep (c # q)"
        proof
          assume "prefix sep (c # q)"
          moreover have "prefix (c # q) (c # cs)" using pq by simp
          ultimately have "prefix sep (c # cs)" by (rule prefix_order.trans)
          with False show False by simp
        qed
        ultimately show ?thesis using p by (simp add: sublist_Cons_right)
      next
        assume "p \<in> set qs"
        then show ?thesis using "2.IH"(2)[OF False "2.prems"(1), of p] Cons by simp
      qed
    qed
  qed
qed

lemma split_py_sublist: "p \<in> set (split_py sep s) \<Longrightarrow> sublist p s"
proof (induction sep s arbitrary: p rule: split_py.induct)
  case (1 sep)
  then show ?case by simp
next
  case (2 sep c cs)
  show ?case
  proof (cases "prefix sep (c # cs)")
    case True
    with "2.prems" have "p = [] \<or> p \<in> set (split_py sep (drop (length sep - 1) cs))" by simp
    then show ?thesis
    proof
      assume "p = []" then show ?thesis by simp
    next
      assume "p \<in> set (split_py sep (drop (length sep - 1) cs))"
      from "2.IH"(1)[OF True this] have "sublist p (drop (length sep - 1) cs)" .
      moreover have "sublist (drop (length sep - 1) cs) (c # cs)"
        by (metis sublist_Cons_right sublist_drop)
      ultimately show ?thesis by (rule sublist_order.order.trans)
    qed
  next
    case False
    show ?thesis
    proof (cases "split_py sep cs")
      case Nil
      with "2.prems" False show ?thesis by simp
    next
      case (Cons q qs)
      with "2.prems" False have "p = c # q \<or> p \<in> set qs" by simp
      then show ?thesis
      proof
        assume p: "p = c # q"
        have "prefix q cs" using Cons by (rule split_py_hd_prefix)
        then have "prefix (c # q) (c # cs)" by simp
        then show ?thesis unfolding p by (rule prefix_imp_sublist)
      next
        assume "p \<in> set qs"
        then have "sublist p cs" using "2.IH"(2)[OF False, of p] Cons by simp
        then show ?thesis by (simp add: sublist_Cons_right)
      qed
    qed
  qed
qed

lemma py_index_mem: "py_index xs i = Inr x \<Longrightarrow> x \<in> set xs"
  unfolding py_index_def by (auto split: if_splits)

lemma first_message_of_clean:
  assumes "first_message_of t = Inr fm"
  shows "\<not> sublist '': '' fm \<and> CHR 0x0A \<notin> set fm"
proof -
  from assms obtain line where l: "py_index (split_py newline t) 1 = Inr line"
    and f: "py_index (split_py '': '' line) 1 = Inr fm"
    unfolding first_message_of_def by (auto split: sum.splits)
  have fm_in: "fm \<in> set (split_py '': '' line)" using f by (rule py_index_mem)
  have line_in: "line \<in> set (split_py newline t)" using l by (rule py_index_mem)
  have 1: "\<not> sublist '': '' fm" using fm_in by (intro split_py_no_sep) simp_all
  have "\<not> sublist newline line" using line_in by (intro split_py_no_sep) (simp_all add: newline_def)
  moreover have "sublist fm line" using fm_in by (rule split_py_sublist)
  ultimately have "\<not> sublist newline fm" using sublist_order.order.trans by blast
  then have "CHR 0x0A \<notin> set fm" unfolding newline_def
    by (metis append_Cons append_Nil split_list sublist_appendI)
  with 1 show ?thesis by simp
qed


lemma split_py_no_occurrence: "sep \<noteq> [] \<Longrightarrow> \<not> sublist sep s \<Longrightarrow> split_py sep s = [s]"
proof (induction s)
  case Nil
  then show ?case by simp
next
  case (Cons c cs)
  then have "\<not> prefix sep (c # cs)" "\<not> sublist sep cs" by (simp_all add: sublist_Cons_right)
  with Cons show ?case by simp
qed

lemma split_py_newline_append:
  "CHR 0x0A \<notin> set a \<Longrightarrow> split_py newline (a @ newline @ b) = a # split_py newline b"
  by (induction a) (simp_all add: newline_def)

lemma split_py_colon_append:
  "\<not> sublist '': '' a \<Longrightarrow> split_py '': '' (a @ '': '' @ b) = a # split_py '': '' b"
proof (induction a)
  case Nil
  show ?case by simp
next
  case (Cons x xs)
  then have np: "\<not> prefix '': '' (x # xs)" and ns: "\<not> sublist '': '' xs"
    by (simp_all add: sublist_Cons_right)
  have "\<not> prefix '': '' (x # xs @ '': '' @ b)"
    using np by (cases xs) (simp_all add: prefix_Cons)
  with Cons.IH[OF ns] show ?case by simp
qed

lemma marker_no_colon:
  "\<not> sublist '': '' r \<Longrightarrow>
     \<not> sublist '': '' (''>>> '' @ (if r = ''user'' then emoji_user else emoji_other) @ r)"
  by (simp add: sublist_Cons_right prefix_Cons emoji_user_def emoji_other_def)

lemma marker_no_newline:
  "CHR 0x0A \<notin> set (''>>> '' @ (if r = ''user'' then emoji_user else emoji_other))"
  by (simp add: emoji_user_def emoji_other_def)

lemma first_message_of_roundtrip:
  assumes "message_line m = Inr l" and "content_text (content m) = Inr q"
    and "CHR 0x0A \<notin> set (role m)" and "\<not> sublist '': '' (role m)"
    and "CHR 0x0A \<notin> set q" and "\<not> sublist '': '' q"
  shows "first_message_of (l @ rest) = Inr q"
proof -
  let ?mark = "''>>> '' @ (if role m = ''user'' then emoji_user else emoji_other) @ role m"
  have l: "l = newline @ (?mark @ '': '' @ q) @ newline" using assms(1,2)
    by (simp add: message_line_def Let_def)
  have nl: "CHR 0x0A \<notin> set (?mark @ '': '' @ q)" using assms(3,5) marker_no_newline[of "role m"]
    by simp
  have "split_py newline (l @ rest) = [] # (?mark @ '': '' @ q) # split_py newline rest"
    using split_py_newline_append[OF nl, of rest] unfolding l
    by (simp add: newline_def)
  then have line: "py_index (split_py newline (l @ rest)) 1 = Inr (?mark @ '': '' @ q)"
    by (simp add: py_index_def)
  have "split_py '': '' (?mark @ '': '' @ q) = ?mark # split_py '': '' q"
    using marker_no_colon[OF assms(4)] by (rule split_py_colon_append)
  also have "split_py '': '' q = [q]" using assms(6) by (intro split_py_no_occurrence) simp_all
  finally have "py_index (split_py '': '' (?mark @ '': '' @ q)) 1 = Inr q"
    by (simp add: py_index_def)
  with line show ?thesis by (simp add: first_message_of_def)
qed

subsection \<open>Replacing the point of a conversation\<close>


lemmas ex_defs = ex_remote_def ex_convo_def ex_messages_def ex_row_a_def ex_row_b_def
  ex_updated_def ex_remote_empty_def ex_inserted_def ex_convo_new_def ex_inserted_new_def
  ex_row_max_def ex_remote_max_def ex_inserted_wrapped_def
  ex_row_q_def ex_remote_q_def ex_convo_q_def ex_updated_q_def

lemmas run_defs = log_convo_body_dict log_convo_handled_def log_convo_try_def update_point_def insert_point_def
  add_point_def locate_prev_def update_metadata_def insert_metadata_def first_message_of_def
  wrap_int64_def in_int64_def
  first_message_text_def in_values_def py_index_def last2_def message_line_def content_text_def
  newline_def emoji_user_def emoji_other_def

lemma ex_update_run:
  "log_convo_body ex_remote (Some ''CS101'') (dict_of ex_convo) =
     (Inr (Some ''Successfully logged for CS101''),
      [Deleted (Whole 2), Added [10] ex_updated, Rebuilt])"
  by (simp add: ex_defs run_defs)

lemma ex_insert_run:
  "log_convo_body ex_remote_empty (Some ''CS101'') (dict_of ex_convo) =
     (Inr (Some ''Successfully logged for CS101''),
      [Embedded [Text ''What is a heap?''], Added [30] ex_inserted, Rebuilt])"
  by (simp add: ex_defs run_defs)

lemma ex_insert_max_run:
  "log_convo_body ex_remote_max (Some ''CS101'') (dict_of ex_convo) =
     (Inr (Some ''Successfully logged for CS101''),
      [Embedded [Text ''What is a heap?''], Added [30] ex_inserted_wrapped, Rebuilt])"
  by (simp add: ex_defs run_defs)

lemma update_metadata_fields:
  assumes "update_metadata cn c prev last_id now = Inr md"
  shows "course md = cn" "conversation_id md = log_conversation_id c"
    "row_id md = plus_one last_id" "user_email md = log_user_email c"
    "created_at md = created_at prev" "modified_at md = now"
    "append_lines (conversation prev) (last2 (log_messages c)) = Inr (conversation md)"
    "\<exists>fm. first_message_of (conversation prev) = Inr fm \<and> first_query md = Text fm"
  using assms unfolding update_metadata_def by (auto split: sum.splits)

lemma astype_int_rows:
  assumes "astype_int (map row_id rows) = Inr ids" and "r \<in> set rows"
  shows "\<exists>k \<in> set ids. row_id r = Whole k"
proof -
  from assms(1) have "map row_id rows = map Whole ids" by (rule astype_int_Inr)
  moreover from assms(2) have "row_id r \<in> set (map row_id rows)" by simp
  ultimately show ?thesis by auto
qed

lemma update_point_Deleted:
  assumes "Added embs md \<in> set (snd (update_point env cn c rows latent last_id))"
    and "locate_prev (log_conversation_id c) rows latent = Inr (prev, e)"
  shows "Deleted (row_id prev) \<in> set (snd (update_point env cn c rows latent last_id))"
  using assms unfolding update_point_def
  by (auto split: sum.splits option.splits prod.splits)

lemma log_convo_body_events:
  "login_res env = None \<Longrightarrow>
     set (snd (log_convo_try env cn c)) \<subseteq> set (snd (log_convo_body env (Some cn) (dict_of c)))"
  unfolding log_convo_body_dict log_convo_handled_def by (auto split: sum.splits option.splits prod.splits)

lemma update_run_deletes:
  assumes "project_res env = Inr (rows, latent)"
    and "prev_data (log_conversation_id c) 0 rows = (p, prev) # rest"
    and "Added embs md \<in> set (snd (log_convo_body env (Some cn) (dict_of c)))"
  shows "Deleted (row_id prev) \<in> set (snd (log_convo_body env (Some cn) (dict_of c)))"
proof -
  from log_convo_body_Added[OF assms(3)] have login: "login_res env = None"
    and tr: "Added embs md \<in> set (snd (log_convo_try env cn c))" by auto
  from log_convo_try_Added[OF tr] assms(1) obtain ids where
    br: "if in_values (log_conversation_id c) rows
         then Added embs md \<in> set (snd (update_point env cn c rows latent (series_max ids)))
         else Added embs md \<in> set (snd (insert_point env cn c (series_max ids)))"
    and ids: "astype_int (map row_id rows) = Inr ids"
    by auto
  have inv: "in_values (log_conversation_id c) rows" using assms(2) by (rule prev_data_in_values)
  with br have up: "Added embs md \<in> set (snd (update_point env cn c rows latent (series_max ids)))"
    by simp
  from update_point_Added[OF up] obtain prev' where
    loc: "locate_prev (log_conversation_id c) rows latent = Inr (prev', embs)" by blast
  with assms(2) have "prev' = prev" unfolding locate_prev_def by (auto split: sum.splits)
  with update_point_Deleted[OF up loc]
  have "Deleted (row_id prev) \<in> set (snd (update_point env cn c rows latent (series_max ids)))"
    by simp
  then have "Deleted (row_id prev) \<in> set (snd (log_convo_try env cn c))"
    using assms(1) ids inv unfolding log_convo_try_def by (simp add: Let_def)
  with log_convo_body_events[OF login] show ?thesis by blast
qed

text \<open>
  C1, as amended. When the conversation has a row in the frame of the map and the run
  hands a row to the map service, that row keeps the time of creation and the
  conversation id of the first row of the conversation, carries the course and the
  e-mail address of the call, has the current time as time of modification and a
  transcript that starts with the stored one. The run deletes the stored row, and the
  \<open>id\<close> of the new row is not taken from it: it is the largest \<open>id\<close> of the frame
  plus one in the arithmetic of \<open>int64\<close>. As long as the largest \<open>id\<close> is below
  \<open>2 ^ 63 - 1\<close> that is the largest \<open>id\<close> plus one, greater than the \<open>id\<close> of the
  stored row.
\<close>

theorem update_keeps_created_at_takes_next_id:
  assumes "project_res env = Inr (rows, latent)"
    and "prev_data (log_conversation_id c) 0 rows = (p, prev) # rest"
    and "Added embs md \<in> set (snd (log_convo_body env (Some cn) (dict_of c)))"
  shows "created_at md = created_at prev \<and> modified_at md = clock env 0
         \<and> conversation_id md = conversation_id prev
         \<and> course md = cn \<and> user_email md = log_user_email c
         \<and> prefix (conversation prev) (conversation md)
         \<and> Deleted (row_id prev) \<in> set (snd (log_convo_body env (Some cn) (dict_of c)))
         \<and> (\<exists>ids k. map row_id rows = map Whole ids \<and> row_id prev = Whole k
               \<and> row_id md = Whole (wrap_int64 (Max (set ids) + 1))
               \<and> (Max (set ids) < 2 ^ 63 - 1 \<longrightarrow>
                     row_id md = Whole (Max (set ids) + 1) \<and> k < Max (set ids) + 1))"
proof -
  from update_run[OF assms] obtain ids v where
    ids: "astype_int (map row_id rows) = Inr ids" and
    upd: "update_metadata cn c prev (series_max ids) (clock env 0) = Inr md"
    by blast
  note f = update_metadata_fields[OF upd]
  from prev_data_sound[OF assms(2)] have mem: "prev \<in> set rows"
    and cid: "conversation_id prev = log_conversation_id c"
    by (auto simp: nth_mem)
  have eq: "map row_id rows = map Whole ids" using ids by (rule astype_int_Inr)
  from astype_int_rows[OF ids mem] obtain k where k: "k \<in> set ids" "row_id prev = Whole k"
    by blast
  then have ne: "ids \<noteq> []" by auto
  have "k \<le> Max (set ids)" using k(1) by simp
  then have lt: "k < Max (set ids) + 1" by simp
  have new: "row_id md = Whole (wrap_int64 (Max (set ids) + 1))"
    using f(3) series_max_Max[OF ne] by simp
  have "Max (set ids) \<in> set ids" using ne by simp
  then have "in_int64 (Max (set ids))" using ids by (rule astype_int_range[rotated])
  then have small: "wrap_int64 (Max (set ids) + 1) = Max (set ids) + 1"
    if "Max (set ids) < 2 ^ 63 - 1" using that by (rule wrap_int64_next)
  have pre: "prefix (conversation prev) (conversation md)"
    using append_lines_Inr[OF f(7)] by auto
  have del: "Deleted (row_id prev) \<in> set (snd (log_convo_body env (Some cn) (dict_of c)))"
    using update_run_deletes[OF assms] .
  show ?thesis using f(1,2,4,5,6) cid pre del eq k(2) new lt small by auto
qed

theorem update_keeps_created_at_takes_next_id_witness:
  "project_res ex_remote = Inr ([ex_row_a, ex_row_b], [10, 20])
   \<and> prev_data (log_conversation_id ex_convo) 0 [ex_row_a, ex_row_b] = [(1, ex_row_b)]
   \<and> Added [10] ex_updated \<in> set (snd (log_convo_body ex_remote (Some ''CS101'') (dict_of ex_convo)))
   \<and> created_at ex_updated = created_at ex_row_b
   \<and> modified_at ex_updated = clock ex_remote 0
   \<and> Deleted (row_id ex_row_b) \<in> set (snd (log_convo_body ex_remote (Some ''CS101'') (dict_of ex_convo)))
   \<and> map row_id [ex_row_a, ex_row_b] = map Whole [1, 2]
   \<and> Max (set [1, 2 :: int]) < 2 ^ 63 - 1
   \<and> row_id ex_updated = Whole 3"
proof -
  have h1: "project_res ex_remote = Inr ([ex_row_a, ex_row_b], [10, 20])"
    by (simp add: ex_remote_def)
  have h2: "prev_data (log_conversation_id ex_convo) 0 [ex_row_a, ex_row_b] = [(1, ex_row_b)]"
    by (simp add: ex_defs)
  have h3: "Added [10] ex_updated \<in> set (snd (log_convo_body ex_remote (Some ''CS101'') (dict_of ex_convo)))"
    by (simp add: ex_update_run)
  have h4: "map row_id [ex_row_a, ex_row_b] = map Whole [1, 2]"
    "Max (set [1, 2 :: int]) < 2 ^ 63 - 1"
    by (simp_all add: ex_defs)
  from update_keeps_created_at_takes_next_id[OF h1 h2 h3] h1 h2 h3 h4 show ?thesis
    by (simp add: ex_updated_def)
qed

text \<open>
  C1 as stated fails: in the map of two points the stored row of \<open>c-2\<close> has the
  \<open>id\<close> 2, and the row that the update hands to the map service has the \<open>id\<close> 3.
\<close>

theorem update_row_id_counterexample:
  "project_res ex_remote = Inr ([ex_row_a, ex_row_b], [10, 20])
   \<and> conversation_id ex_row_b = log_conversation_id ex_convo
   \<and> log_convo_body ex_remote (Some ''CS101'') (dict_of ex_convo) =
       (Inr (Some ''Successfully logged for CS101''),
        [Deleted (Whole 2), Added [10] ex_updated, Rebuilt])
   \<and> row_id ex_row_b = Whole 2 \<and> row_id ex_updated = Whole 3
   \<and> row_id ex_updated \<noteq> row_id ex_row_b"
  by (simp add: ex_update_run) (simp add: ex_defs)


lemma last2_short: "length ms \<le> 2 \<Longrightarrow> last2 ms = ms"
  by (simp add: last2_def)

lemma last2_long:
  "2 \<le> length ms \<Longrightarrow> last2 ms = [ms ! (length ms - 2), ms ! (length ms - 1)]"
proof -
  assume len: "2 \<le> length ms"
  have "length (last2 ms) = 2" using len by (simp add: last2_def)
  then obtain a b where ab: "last2 ms = [a, b]"
    by (metis (no_types) Suc_length_conv length_0_conv numeral_2_eq_2)
  have "Suc (length ms - 2) = length ms - 1" using len by simp
  then have "last2 ms ! 0 = ms ! (length ms - 2)" "last2 ms ! 1 = ms ! (length ms - 1)"
    using len by (simp_all add: last2_def)
  with ab show ?thesis by simp
qed

lemma message_line_error:
  "message_line m = Inl e \<longleftrightarrow> content_text (content m) = Inl e"
  by (simp add: message_line_def Let_def split: sum.splits)

lemma append_lines_error:
  "append_lines acc ms = Inl e \<Longrightarrow> \<exists>m \<in> set ms. content_text (content m) = Inl e"
proof (induction ms arbitrary: acc)
  case Nil
  then show ?case by simp
next
  case (Cons m ms)
  then show ?case by (cases "message_line m") (auto simp: message_line_error)
qed

text \<open>
  C3. When the conversation has a row in the frame of the map and the run hands a row to
  the map service, the transcript of that row is the stored transcript followed by the
  lines of the last two messages of the conversation, formatted by the formatter on their
  own: the stored text is kept as it is and nothing is compared with it, so a repeated
  message is appended again. Of a list shorter than two all messages are taken. Building
  the row fails only when the stored transcript has no second line with a separator or
  when the text of one of the appended messages cannot be read; the length of the list is
  never a reason.
\<close>

theorem update_appends_last_two:
  assumes "project_res env = Inr (rows, latent)"
    and "prev_data (log_conversation_id c) 0 rows = (p, prev) # rest"
    and "Added embs md \<in> set (snd (log_convo_body env (Some cn) (dict_of c)))"
  shows "(\<exists>tail. append_lines [] (last2 (log_messages c)) = Inr tail
            \<and> conversation md = conversation prev @ tail)
         \<and> (length (log_messages c) \<le> 2 \<longrightarrow> last2 (log_messages c) = log_messages c)
         \<and> (2 \<le> length (log_messages c) \<longrightarrow>
              last2 (log_messages c) =
                [log_messages c ! (length (log_messages c) - 2),
                 log_messages c ! (length (log_messages c) - 1)])
         \<and> (\<forall>last_id now e. update_metadata cn c prev last_id now = Inl e \<longrightarrow>
              first_message_of (conversation prev) = Inl e
              \<or> (\<exists>m \<in> set (last2 (log_messages c)). content_text (content m) = Inl e))"
proof -
  from update_run[OF assms] obtain ids where
    upd: "update_metadata cn c prev (series_max ids) (clock env 0) = Inr md"
    by blast
  have 1: "\<exists>tail. append_lines [] (last2 (log_messages c)) = Inr tail
            \<and> conversation md = conversation prev @ tail"
    using append_lines_Inr[OF update_metadata_fields(7)[OF upd]] .
  have 4: "\<forall>last_id now e. update_metadata cn c prev last_id now = Inl e \<longrightarrow>
              first_message_of (conversation prev) = Inl e
              \<or> (\<exists>m \<in> set (last2 (log_messages c)). content_text (content m) = Inl e)"
    unfolding update_metadata_def
    by (auto split: sum.splits dest: append_lines_error)
  show ?thesis using 1 4 last2_short[of "log_messages c"] last2_long[of "log_messages c"]
    by blast
qed

theorem update_appends_last_two_witness:
  "project_res ex_remote = Inr ([ex_row_a, ex_row_b], [10, 20])
   \<and> prev_data (log_conversation_id ex_convo) 0 [ex_row_a, ex_row_b] = [(1, ex_row_b)]
   \<and> Added [10] ex_updated \<in> set (snd (log_convo_body ex_remote (Some ''CS101'') (dict_of ex_convo)))
   \<and> last2 (log_messages ex_convo) =
       [\<lparr>role = ''assistant'', content = Parts [Some ''A tree.'', Some ''More.'']\<rparr>,
        \<lparr>role = ''user'', content = Text ''Thanks''\<rparr>]
   \<and> (\<exists>tail. append_lines [] (last2 (log_messages ex_convo)) = Inr tail
          \<and> conversation ex_updated = conversation ex_row_b @ tail)"
proof -
  have h1: "project_res ex_remote = Inr ([ex_row_a, ex_row_b], [10, 20])"
    by (simp add: ex_remote_def)
  have h2: "prev_data (log_conversation_id ex_convo) 0 [ex_row_a, ex_row_b] = [(1, ex_row_b)]"
    by (simp add: ex_defs)
  have h3: "Added [10] ex_updated \<in> set (snd (log_convo_body ex_remote (Some ''CS101'') (dict_of ex_convo)))"
    by (simp add: ex_update_run)
  have h4: "last2 (log_messages ex_convo) =
       [\<lparr>role = ''assistant'', content = Parts [Some ''A tree.'', Some ''More.'']\<rparr>,
        \<lparr>role = ''user'', content = Text ''Thanks''\<rparr>]"
    by (simp add: ex_convo_def ex_messages_def last2_def)
  from update_appends_last_two[OF h1 h2 h3] h1 h2 h3 h4 show ?thesis
    by blast
qed

text \<open>
  C10. When the conversation has a row in the frame of the map and the run hands a row
  to the map service, the first query of that row is read off the stored transcript: of
  its second line, the piece between the first separator \<open>": "\<close> and the next one. The
  messages of the call play no part. Such a piece holds neither \<open>": "\<close> nor a line
  break, so the first query of the new row differs from every text that holds one of
  them, the first query of the conversation included.
\<close>

theorem update_first_query_from_transcript:
  assumes "project_res env = Inr (rows, latent)"
    and "prev_data (log_conversation_id c) 0 rows = (p, prev) # rest"
    and "Added embs md \<in> set (snd (log_convo_body env (Some cn) (dict_of c)))"
  shows "\<exists>line fm. py_index (split_py newline (conversation prev)) 1 = Inr line
           \<and> py_index (split_py '': '' line) 1 = Inr fm
           \<and> first_query md = Text fm
           \<and> \<not> sublist '': '' fm \<and> CHR 0x0A \<notin> set fm
           \<and> (\<forall>q. sublist '': '' q \<or> CHR 0x0A \<in> set q \<longrightarrow> first_query md \<noteq> Text q)"
proof -
  from update_run[OF assms] obtain ids where
    upd: "update_metadata cn c prev (series_max ids) (clock env 0) = Inr md"
    by blast
  from update_metadata_fields(8)[OF upd] obtain fm where
    fm: "first_message_of (conversation prev) = Inr fm" and fq: "first_query md = Text fm"
    by blast
  from fm obtain line where "py_index (split_py newline (conversation prev)) 1 = Inr line"
    "py_index (split_py '': '' line) 1 = Inr fm"
    unfolding first_message_of_def by (auto split: sum.splits)
  moreover note first_message_of_clean[OF fm] fq
  ultimately show ?thesis by auto
qed


lemma ex_update_q_run:
  "log_convo_body ex_remote_q (Some ''CS101'') (dict_of ex_convo_q) =
     (Inr (Some ''Successfully logged for CS101''),
      [Deleted (Whole 7), Added [40] ex_updated_q, Rebuilt])"
  by (simp add: ex_defs run_defs)

lemma ex_insert_new_run:
  "log_convo_body ex_remote (Some ''CS101'') (dict_of ex_convo_new) =
     (Inr (Some ''Successfully logged for CS101''),
      [Embedded [Text ''What is a heap?''], Added [30] ex_inserted_new, Rebuilt])"
  by (simp add: ex_defs run_defs)

theorem update_first_query_from_transcript_witness:
  "project_res ex_remote_q = Inr ([ex_row_q], [40])
   \<and> prev_data (log_conversation_id ex_convo_q) 0 [ex_row_q] = [(0, ex_row_q)]
   \<and> Added [40] ex_updated_q \<in> set (snd (log_convo_body ex_remote_q (Some ''CS101'') (dict_of ex_convo_q)))
   \<and> first_query ex_row_q = Text ''Q: what is a heap?''
   \<and> first_query ex_updated_q = Text ''Q''
   \<and> first_query ex_updated_q \<noteq> first_query ex_row_q"
proof -
  have h1: "project_res ex_remote_q = Inr ([ex_row_q], [40])"
    by (simp add: ex_remote_q_def ex_remote_def)
  have h2: "prev_data (log_conversation_id ex_convo_q) 0 [ex_row_q] = [(0, ex_row_q)]"
    by (simp add: ex_defs)
  have h3: "Added [40] ex_updated_q \<in> set (snd (log_convo_body ex_remote_q (Some ''CS101'') (dict_of ex_convo_q)))"
    by (simp add: ex_update_q_run)
  have h4: "first_query ex_row_q = Text ''Q: what is a heap?''" "first_query ex_updated_q = Text ''Q''"
    by (simp_all add: ex_row_q_def ex_updated_q_def)
  have "sublist '': '' ''Q: what is a heap?''"
    by (simp add: sublist_Cons_right)
  with update_first_query_from_transcript[OF h1 h2 h3]
  have "first_query ex_updated_q \<noteq> Text ''Q: what is a heap?''" by blast
  with h1 h2 h3 h4 show ?thesis by simp
qed

lemma insert_metadata_fields:
  assumes "insert_metadata cn c last_id now = Inr md"
  shows "course md = cn" "conversation_id md = log_conversation_id c"
    "row_id md = plus_one last_id" "user_email md = log_user_email c"
    "created_at md = now" "modified_at md = now"
    "append_lines [] (log_messages c) = Inr (conversation md)"
    "\<exists>fm. first_message_text (log_messages c) = Inr fm \<and> first_query md = Text fm"
  using assms unfolding insert_metadata_def by (auto split: sum.splits)

lemma added_row_id:
  assumes "Added embs md \<in> set (snd (log_convo_body env (Some cn) (dict_of c)))"
  shows "\<exists>rows latent ids. project_res env = Inr (rows, latent)
           \<and> astype_int (map row_id rows) = Inr ids \<and> row_id md = plus_one (series_max ids)"
proof -
  from log_convo_body_Added[OF assms]
  have "Added embs md \<in> set (snd (log_convo_try env cn c))" by simp
  from log_convo_try_Added[OF this] obtain rows latent ids where
    pr: "project_res env = Inr (rows, latent)" and ids: "astype_int (map row_id rows) = Inr ids"
    and br: "if in_values (log_conversation_id c) rows
         then Added embs md \<in> set (snd (update_point env cn c rows latent (series_max ids)))
         else Added embs md \<in> set (snd (insert_point env cn c (series_max ids)))"
    by blast
  have "row_id md = plus_one (series_max ids)"
  proof (cases "in_values (log_conversation_id c) rows")
    case True
    with br update_point_Added[of embs md env cn c rows latent "series_max ids"]
    show ?thesis by (auto dest: update_metadata_fields(3))
  next
    case False
    with br insert_point_Added[of embs md env cn c "series_max ids"]
    show ?thesis by (auto dest: insert_metadata_fields(3))
  qed
  with pr ids show ?thesis by blast
qed

text \<open>
  C4, as amended. Every row that a run hands to the map service, for a new conversation
  or for one that has a point, gets its \<open>id\<close> from the frame of the map read at the
  start of the run. If the frame has rows and their largest \<open>id\<close> \<open>k\<close> is below
  \<open>2 ^ 63 - 1\<close>, the new \<open>id\<close> is \<open>k + 1\<close>: greater than every \<open>id\<close> of the
  frame and so different from all of them, and a frame of distinct \<open>id\<close>s stays one
  when the row is added. Nothing is said here of a frame without rows and of a frame
  that holds the largest \<open>int64\<close>.
\<close>

theorem next_row_id_is_max_plus_one:
  assumes "Added embs md \<in> set (snd (log_convo_body env (Some cn) (dict_of c)))"
  shows "\<exists>rows latent ids. project_res env = Inr (rows, latent)
           \<and> map row_id rows = map Whole ids
           \<and> (ids \<noteq> [] \<and> Max (set ids) < 2 ^ 63 - 1 \<longrightarrow>
                 row_id md = Whole (Max (set ids) + 1)
                 \<and> (\<forall>i \<in> set ids. i < Max (set ids) + 1)
                 \<and> row_id md \<notin> set (map row_id rows)
                 \<and> (distinct (map row_id rows) \<longrightarrow> distinct (map row_id (rows @ [md]))))"
proof -
  from added_row_id[OF assms] obtain rows latent ids where
    pr: "project_res env = Inr (rows, latent)" and ids: "astype_int (map row_id rows) = Inr ids"
    and new: "row_id md = plus_one (series_max ids)" by blast
  have eq: "map row_id rows = map Whole ids" using ids by (rule astype_int_Inr)
  have nonempty: "row_id md = Whole (Max (set ids) + 1)
                 \<and> (\<forall>i \<in> set ids. i < Max (set ids) + 1)
                 \<and> row_id md \<notin> set (map row_id rows)
                 \<and> (distinct (map row_id rows) \<longrightarrow> distinct (map row_id (rows @ [md])))"
    if ne: "ids \<noteq> []" and small: "Max (set ids) < 2 ^ 63 - 1"
  proof -
    have "Max (set ids) \<in> set ids" using ne by simp
    then have "in_int64 (Max (set ids))" using ids by (rule astype_int_range[rotated])
    then have "wrap_int64 (Max (set ids) + 1) = Max (set ids) + 1"
      using small by (rule wrap_int64_next)
    then have a: "row_id md = Whole (Max (set ids) + 1)"
      using new series_max_Max[OF ne] by simp
    have b: "\<forall>i \<in> set ids. i < Max (set ids) + 1"
    proof
      fix i assume "i \<in> set ids"
      then have "i \<le> Max (set ids)" by simp
      then show "i < Max (set ids) + 1" by simp
    qed
    have "Max (set ids) + 1 \<notin> set ids" using b by blast
    then have c: "row_id md \<notin> set (map row_id rows)"
      unfolding eq a by auto
    show ?thesis using a b c by simp
  qed
  show ?thesis using pr eq nonempty by blast
qed

theorem next_row_id_is_max_plus_one_witness:
  "Added [30] ex_inserted_new
       \<in> set (snd (log_convo_body ex_remote (Some ''CS101'') (dict_of ex_convo_new)))
   \<and> project_res ex_remote = Inr ([ex_row_a, ex_row_b], [10, 20])
   \<and> map row_id [ex_row_a, ex_row_b] = map Whole [1, 2]
   \<and> Max (set [1, 2 :: int]) < 2 ^ 63 - 1
   \<and> row_id ex_inserted_new = Whole (Max (set [1, 2]) + 1)
   \<and> row_id ex_inserted_new = Whole 3"
proof -
  have h: "Added [30] ex_inserted_new
       \<in> set (snd (log_convo_body ex_remote (Some ''CS101'') (dict_of ex_convo_new)))"
    by (simp add: ex_insert_new_run)
  have p: "project_res ex_remote = Inr ([ex_row_a, ex_row_b], [10, 20])"
    by (simp add: ex_remote_def)
  have m: "map row_id [ex_row_a, ex_row_b] = map Whole [1, 2]"
    by (simp add: ex_row_a_def ex_row_b_def)
  have b: "Max (set [1, 2 :: int]) < 2 ^ 63 - 1" by simp
  from next_row_id_is_max_plus_one[OF h] p m
  have "[1, 2 :: int] \<noteq> [] \<and> Max (set [1, 2 :: int]) < 2 ^ 63 - 1 \<longrightarrow>
          row_id ex_inserted_new = Whole (Max (set [1, 2]) + 1)"
    by (auto simp: map_eq_Cons_conv)
  with b have "row_id ex_inserted_new = Whole (Max (set [1, 2]) + 1)" by simp
  with h p m b show ?thesis by simp
qed

text \<open>
  C4 as stated fails at both ends. For a map without points the row of the inserted
  conversation has the \<open>id\<close> \<open>NaN\<close>, not 1. For a map whose largest \<open>id\<close> is
  \<open>2 ^ 63 - 1\<close> the row of the inserted conversation has the \<open>id\<close> \<open>- 2 ^ 63\<close>,
  which is not the largest \<open>id\<close> plus one and is below it.
\<close>

theorem empty_index_row_id_counterexample:
  "project_res ex_remote_empty = Inr ([], [])
   \<and> log_convo_body ex_remote_empty (Some ''CS101'') (dict_of ex_convo) =
       (Inr (Some ''Successfully logged for CS101''),
        [Embedded [Text ''What is a heap?''], Added [30] ex_inserted, Rebuilt])
   \<and> row_id ex_inserted = NaN \<and> row_id ex_inserted \<noteq> Whole 1
   \<and> project_res ex_remote_max = Inr ([ex_row_max], [10])
   \<and> row_id ex_row_max = Whole 9223372036854775807
   \<and> log_convo_body ex_remote_max (Some ''CS101'') (dict_of ex_convo) =
       (Inr (Some ''Successfully logged for CS101''),
        [Embedded [Text ''What is a heap?''], Added [30] ex_inserted_wrapped, Rebuilt])
   \<and> row_id ex_inserted_wrapped = Whole (- 9223372036854775808)"
  by (simp add: ex_insert_run ex_insert_max_run) (simp add: ex_defs)

lemma add_point_no_Embedded: "Embedded qs \<notin> set (snd (add_point env cn e m))"
  unfolding add_point_def by (simp split: option.splits)

text \<open>
  The two parts of C2 that hold: replacing the point of a conversation asks the embedding
  model for nothing, and adding the point of a new conversation asks it for the vector
  of one text, the text of the first message.
\<close>

lemma update_requests_no_embedding:
  assumes "project_res env = Inr (rows, latent)"
    and "prev_data (log_conversation_id c) 0 rows = (p, prev) # rest"
  shows "Embedded qs \<notin> set (snd (log_convo_try env cn c))"
proof -
  have "in_values (log_conversation_id c) rows" using assms(2) by (rule prev_data_in_values)
  then show ?thesis
    using assms(1) add_point_no_Embedded[of qs env cn]
    unfolding log_convo_try_def update_point_def
    by (simp add: Let_def case_prod_beta split: sum.splits option.splits)
qed

lemma insert_requests_first_query:
  assumes "project_res env = Inr (rows, latent)"
    and "\<not> in_values (log_conversation_id c) rows"
    and "Embedded qs \<in> set (snd (log_convo_try env cn c))"
  shows "\<exists>fm. first_message_text (log_messages c) = Inr fm \<and> qs = [Text fm]"
proof -
  from assms obtain ids md where
    md: "insert_metadata cn c (series_max ids) (clock env 0) = Inr md" and "qs = [first_query md]"
    using add_point_no_Embedded[of qs env cn]
    unfolding log_convo_try_def insert_point_def
    by (auto simp: Let_def case_prod_beta split: sum.splits option.splits)
  with insert_metadata_fields(8)[OF md] show ?thesis by auto
qed

text \<open>
  C2, the failing input. In the map of two points the vectors are 10 for \<open>c-1\<close> at
  position 0 and 20 for \<open>c-2\<close> at position 1. The update of \<open>c-2\<close> hands the vector
  10 to the map service, the one stored for \<open>c-1\<close>: line 96 reads the array at
  \<open>prev_index - 1\<close>.
\<close>

theorem update_takes_vector_of_previous_row:
  "project_res ex_remote = Inr ([ex_row_a, ex_row_b], [10, 20])
   \<and> conversation_id ([ex_row_a, ex_row_b] ! 1) = log_conversation_id ex_convo
   \<and> [10, 20 :: nat] ! 1 = 20
   \<and> log_convo_body ex_remote (Some ''CS101'') (dict_of ex_convo) =
       (Inr (Some ''Successfully logged for CS101''),
        [Deleted (Whole 2), Added [10] ex_updated, Rebuilt])"
  by (simp add: ex_update_run) (simp add: ex_defs)

subsection \<open>The retry decorator\<close>


lemma waits_append: "waits (xs @ ys) = waits xs @ waits ys"
  by (induction xs rule: waits.induct) simp_all

lemma captured_append: "captured (xs @ ys) = captured xs @ captured ys"
  by (induction xs rule: captured.induct) simp_all

lemma printed_append: "printed (xs @ ys) = printed xs @ printed ys"
  by (induction xs rule: printed.induct) simp_all

lemma create_nomic_map_no_raise:
  "map_login_res env = None \<Longrightarrow> client_res env = None \<Longrightarrow>
     \<exists>r. fst (create_nomic_map env cn c) = Inr r"
  unfolding create_nomic_map_def by (auto split: sum.splits prod.splits)

lemma add_point_result:
  "add_point env cn e m = (Inr s, evs) \<Longrightarrow> s = ''Successfully logged for '' @ cn"
  unfolding add_point_def by (auto split: option.splits)

lemma update_point_result:
  "update_point env cn c rows latent last_id = (Inr s, evs) \<Longrightarrow>
     s = ''Successfully logged for '' @ cn"
  unfolding update_point_def
  by (auto split: sum.splits option.splits prod.splits dest: add_point_result)

lemma insert_point_result:
  "insert_point env cn c last_id = (Inr s, evs) \<Longrightarrow> s = ''Successfully logged for '' @ cn"
  unfolding insert_point_def
  by (auto simp: Let_def split: sum.splits option.splits prod.splits dest: add_point_result)

lemma log_convo_try_result:
  "log_convo_try env cn c = (Inr s, evs) \<Longrightarrow> s = ''Successfully logged for '' @ cn"
  unfolding log_convo_try_def
  by (auto simp: Let_def split: sum.splits prod.splits if_splits
      dest: update_point_result insert_point_result)

lemma log_convo_body_result:
  assumes "login_res env = None" and "map_login_res env = None" and "client_res env = None"
  shows "(\<exists>s. fst (log_convo_body env (Some cn) (dict_of c)) = Inl (Wrapped s))
         \<or> fst (log_convo_body env (Some cn) (dict_of c)) = Inr None
         \<or> fst (log_convo_body env (Some cn) (dict_of c)) = Inr (Some (''Successfully logged for '' @ cn))"
proof (cases "log_convo_try env cn c")
  case (Pair r evs)
  show ?thesis
  proof (cases r)
    case (Inr s)
    with Pair log_convo_try_result[of env cn c s evs] assms(1) show ?thesis
      by (simp add: log_convo_body_dict log_convo_handled_def)
  next
    case (Inl e)
    show ?thesis
    proof (cases "str_exn e = NOT_CONFIGURED")
      case False
      with Pair Inl assms(1) show ?thesis by (simp add: log_convo_body_dict log_convo_handled_def)
    next
      case True
      from create_nomic_map_no_raise[OF assms(2,3), of cn c] obtain r' where
        "fst (create_nomic_map env cn c) = Inr r'" by blast
      with Pair Inl True assms(1) show ?thesis
        by (cases "create_nomic_map env cn c") (simp add: log_convo_body_dict log_convo_handled_def)
    qed
  qed
qed

lemma giveup_hdlr_Wrapped:
  "giveup_hdlr (Wrapped s) =
     (if s \<in> set LOCK_EXCEPTIONS then (Inr False, [Printed_giveup s])
      else (Inr True, [Printed_giveup s, Captured (Wrapped s)]))"
  by (simp add: giveup_hdlr_def)

text \<open>A target that raises nothing but wrapped exceptions never makes the decorator raise.\<close>

lemma on_exception_result:
  assumes "\<And>k. t \<le> k \<Longrightarrow> k < t + left \<Longrightarrow>
             (\<exists>s. fst (target k) = Inl (Wrapped s)) \<or> fst (target k) = Inr None
               \<or> fst (target k) = Inr (Some ok)"
  shows "fst (on_exception left t target) = Inr None
         \<or> fst (on_exception left t target) = Inr (Some ok)"
  using assms
proof (induction left arbitrary: t)
  case 0
  show ?case by simp
next
  case (Suc left)
  have here: "(\<exists>s. fst (target t) = Inl (Wrapped s)) \<or> fst (target t) = Inr None
               \<or> fst (target t) = Inr (Some ok)"
    by (rule Suc.prems) simp_all
  have rest: "fst (on_exception left (Suc t) target) = Inr None
         \<or> fst (on_exception left (Suc t) target) = Inr (Some ok)"
    by (rule Suc.IH) (rule Suc.prems, simp_all)
  obtain r evs where tt: "target t = (r, evs)" by (cases "target t")
  obtain r' evs' where rr: "on_exception left (Suc t) target = (r', evs')"
    by (cases "on_exception left (Suc t) target")
  from here tt consider s where "r = Inl (Wrapped s)" | "r = Inr None" | "r = Inr (Some ok)"
    by auto
  then show ?case
  proof cases
    case 1
    with tt rr rest show ?thesis by (auto simp: giveup_hdlr_Wrapped)
  next
    case 2
    with tt show ?thesis by simp
  next
    case 3
    with tt show ?thesis by simp
  qed
qed


text \<open>
  \<open>k\<close> calls in a row that raise one of the lock messages, with more calls allowed:
  each is followed by the print of the handler and a pause, and the decorator goes on
  with call \<open>t + k\<close>.
\<close>

lemma on_exception_transient:
  assumes "\<And>j. t \<le> j \<Longrightarrow> j < t + k \<Longrightarrow>
             fst (target j) = Inl (Wrapped (l j)) \<and> l j \<in> set LOCK_EXCEPTIONS"
    and "k < left"
  shows "on_exception left t target =
     (fst (on_exception (left - k) (t + k) target),
      concat (map (\<lambda>j. snd (target j) @ [Printed_giveup (l j), Backoff (backoff_strategy j) (Suc j)])
                [t..<t + k])
        @ snd (on_exception (left - k) (t + k) target))"
  using assms
proof (induction k arbitrary: t left)
  case 0
  show ?case by simp
next
  case (Suc k)
  from Suc.prems(2) obtain left' where left: "left = Suc left'" and k: "k < left'"
    by (cases left) auto
  have here: "fst (target t) = Inl (Wrapped (l t))" "l t \<in> set LOCK_EXCEPTIONS"
    using Suc.prems(1)[of t] by simp_all
  obtain evs where tt: "target t = (Inl (Wrapped (l t)), evs)"
    using here(1) by (cases "target t") simp
  have ih: "on_exception left' (Suc t) target =
     (fst (on_exception (left' - k) (Suc t + k) target),
      concat (map (\<lambda>j. snd (target j) @ [Printed_giveup (l j), Backoff (backoff_strategy j) (Suc j)])
                [Suc t..<Suc t + k])
        @ snd (on_exception (left' - k) (Suc t + k) target))"
    by (rule Suc.IH[OF _ k]) (rule Suc.prems(1), simp_all)
  have upt: "[t..<t + Suc k] = t # [Suc t..<Suc t + k]"
    by (simp add: upt_conv_Cons)
  have ne: "left' \<noteq> 0" using k by simp
  show ?case
    unfolding left upt
    using tt here(2) ne ih by (simp add: giveup_hdlr_Wrapped)
qed

lemma backoff_strategy_increasing: "backoff_strategy n < backoff_strategy (Suc n)"
  by (simp add: backoff_strategy_def)

lemma sorted_wrt_backoff: "sorted_wrt (<) (map backoff_strategy [t..<t + k])"
proof -
  have "\<And>i j. i < j \<Longrightarrow> backoff_strategy i < backoff_strategy j"
    by (simp add: backoff_strategy_def)
  then show ?thesis
    by (simp add: sorted_wrt_map sorted_wrt_iff_nth_less)
qed


lemma add_point_quiet:
  "waits (snd (add_point env cn e m)) = [] \<and> printed (snd (add_point env cn e m)) = []
   \<and> captured (snd (add_point env cn e m)) = []"
  unfolding add_point_def by (simp split: option.splits)

lemma update_point_quiet:
  "waits (snd (update_point env cn c rows latent last_id)) = []
   \<and> printed (snd (update_point env cn c rows latent last_id)) = []
   \<and> captured (snd (update_point env cn c rows latent last_id)) = []"
  using add_point_quiet[of env cn]
  unfolding update_point_def
  by (simp add: case_prod_beta split: sum.splits option.splits)

lemma insert_point_quiet:
  "waits (snd (insert_point env cn c last_id)) = []
   \<and> printed (snd (insert_point env cn c last_id)) = []
   \<and> captured (snd (insert_point env cn c last_id)) = []"
  using add_point_quiet[of env cn]
  unfolding insert_point_def
  by (simp add: Let_def case_prod_beta split: sum.splits option.splits)

lemma log_convo_try_quiet:
  "waits (snd (log_convo_try env cn c)) = []
   \<and> printed (snd (log_convo_try env cn c)) = []
   \<and> captured (snd (log_convo_try env cn c)) = []"
  using update_point_quiet[of env cn c] insert_point_quiet[of env cn c]
  unfolding log_convo_try_def
  by (simp add: Let_def case_prod_beta split: sum.splits)

lemma create_map_try_quiet:
  "waits (snd (create_map_try env cn c)) = [] \<and> printed (snd (create_map_try env cn c)) = []
   \<and> captured (snd (create_map_try env cn c)) = []"
  unfolding create_map_try_def by (simp split: sum.splits option.splits prod.splits)

lemma create_nomic_map_quiet:
  "waits (snd (create_nomic_map env cn c)) = [] \<and> printed (snd (create_nomic_map env cn c)) = []"
  using create_map_try_quiet[of env cn c]
  unfolding create_nomic_map_def
  by (simp add: waits_append printed_append case_prod_beta split: sum.splits option.splits)

lemma log_convo_body_quiet:
  "waits (snd (log_convo_body env (Some cn) (dict_of c))) = [] \<and> printed (snd (log_convo_body env (Some cn) (dict_of c))) = []"
  using log_convo_try_quiet[of env cn c] create_nomic_map_quiet[of env cn c]
  unfolding log_convo_body_dict log_convo_handled_def
  by (simp add: waits_append printed_append case_prod_beta split: sum.splits option.splits)

lemma create_nomic_map_raise_events:
  "fst (create_nomic_map env cn c) = Inl e \<Longrightarrow> snd (create_nomic_map env cn c) = []"
  unfolding create_nomic_map_def
  by (simp add: case_prod_beta split: sum.splits option.splits)

lemma log_convo_body_raise_no_capture:
  "fst (log_convo_body env (Some cn) (dict_of c)) = Inl (Wrapped s) \<Longrightarrow> captured (snd (log_convo_body env (Some cn) (dict_of c))) = []"
  using log_convo_try_quiet[of env cn c] create_nomic_map_raise_events[of env cn c]
  unfolding log_convo_body_dict log_convo_handled_def
  by (auto simp: case_prod_beta captured_append split: sum.splits option.splits if_splits)


lemma retried_calls_events:
  assumes "\<And>j. j \<in> set js \<Longrightarrow> fst (log_convo_body (envs j) (Some cn) (dict_of c)) = Inl (Wrapped (l j))"
  shows "waits (concat (map (\<lambda>j. snd (log_convo_body (envs j) (Some cn) (dict_of c))
                  @ [Printed_giveup (l j), Backoff (backoff_strategy j) (Suc j)]) js))
           = map backoff_strategy js"
    and "printed (concat (map (\<lambda>j. snd (log_convo_body (envs j) (Some cn) (dict_of c))
                  @ [Printed_giveup (l j), Backoff (backoff_strategy j) (Suc j)]) js))
           = map l js"
    and "captured (concat (map (\<lambda>j. snd (log_convo_body (envs j) (Some cn) (dict_of c))
                  @ [Printed_giveup (l j), Backoff (backoff_strategy j) (Suc j)]) js))
           = []"
  using assms
proof (induction js)
  case Nil
  {
    case 1 show ?case by simp
  next
    case 2 show ?case by simp
  next
    case 3 show ?case by simp
  }
next
  case (Cons j js)
  {
    case 1
    with Cons.IH(1) show ?case
      by (simp add: waits_append log_convo_body_quiet)
  next
    case 2
    with Cons.IH(2) show ?case
      by (simp add: printed_append log_convo_body_quiet)
  next
    case 3
    with Cons.IH(3) show ?case
      by (simp add: captured_append log_convo_body_raise_no_capture)
  }
qed


text \<open>
  Calls of the body that raise a wrapped lock message: what the decorated function does
  after \<open>k\<close> of them.
\<close>

lemma wrapped_failures_are_retried:
  assumes "k < max_tries"
    and "\<forall>j<k. fst (log_convo_body (envs j) (Some cn) (dict_of c)) = Inl (Wrapped (l j))
               \<and> l j \<in> set LOCK_EXCEPTIONS"
  shows "(\<forall>r. fst (log_convo_body (envs k) (Some cn) (dict_of c)) = Inr r \<longrightarrow>
            log_convo_to_nomic envs (Some cn) (dict_of c)
              = (Inr r, retried envs (Some cn) (dict_of c) l k @ snd (log_convo_body (envs k) (Some cn) (dict_of c)))
            \<and> waits (snd (log_convo_to_nomic envs (Some cn) (dict_of c))) = map backoff_strategy [0..<k])
       \<and> (Suc k = max_tries \<and> fst (log_convo_body (envs k) (Some cn) (dict_of c)) = Inl (Wrapped (l k))
            \<and> l k \<in> set LOCK_EXCEPTIONS \<longrightarrow>
            log_convo_to_nomic envs (Some cn) (dict_of c)
              = (Inr None,
                 retried envs (Some cn) (dict_of c) l k @ snd (log_convo_body (envs k) (Some cn) (dict_of c)) @ [Printed_giveup (l k)])
            \<and> waits (snd (log_convo_to_nomic envs (Some cn) (dict_of c))) = map backoff_strategy [0..<k]
            \<and> printed (snd (log_convo_to_nomic envs (Some cn) (dict_of c))) = map l [0..<max_tries]
            \<and> captured (snd (log_convo_to_nomic envs (Some cn) (dict_of c))) = [])
       \<and> sorted_wrt (<) (map backoff_strategy [0..<k])
       \<and> (\<forall>n. backoff_strategy n = (3 / 2) * 10 ^ n
              \<and> backoff_strategy n < backoff_strategy (Suc n))"
proof -
  let ?body = "\<lambda>j. log_convo_body (envs j) (Some cn) (dict_of c)"
  let ?rest = "on_exception (max_tries - k) k ?body"
  have raised: "fst (?body j) = Inl (Wrapped (l j))" if "j \<in> set [0..<k]" for j
    using assms(2) that by simp
  have split: "log_convo_to_nomic envs (Some cn) (dict_of c) = (fst ?rest, retried envs (Some cn) (dict_of c) l k @ snd ?rest)"
    unfolding log_convo_to_nomic_def retried_def
    using on_exception_transient[of 0 k ?body l max_tries] assms by simp
  obtain m where m: "max_tries - k = Suc m" using assms(1) by (cases "max_tries - k") auto
  have w: "waits (retried envs (Some cn) (dict_of c) l k) = map backoff_strategy [0..<k]"
    unfolding retried_def using raised by (rule retried_calls_events(1))
  have p: "printed (retried envs (Some cn) (dict_of c) l k) = map l [0..<k]"
    unfolding retried_def using raised by (rule retried_calls_events(2))
  have cp: "captured (retried envs (Some cn) (dict_of c) l k) = []"
    unfolding retried_def using raised by (rule retried_calls_events(3))
  have a: "log_convo_to_nomic envs (Some cn) (dict_of c) = (Inr r, retried envs (Some cn) (dict_of c) l k @ snd (?body k))
            \<and> waits (snd (log_convo_to_nomic envs (Some cn) (dict_of c))) = map backoff_strategy [0..<k]"
    if r: "fst (?body k) = Inr r" for r
  proof -
    obtain evs where "?body k = (Inr r, evs)" using r by (cases "?body k") simp
    then have "?rest = (Inr r, snd (?body k))" unfolding m by simp
    with split have "log_convo_to_nomic envs (Some cn) (dict_of c) = (Inr r, retried envs (Some cn) (dict_of c) l k @ snd (?body k))"
      by simp
    then show ?thesis by (simp add: waits_append w log_convo_body_quiet)
  qed
  have b: "log_convo_to_nomic envs (Some cn) (dict_of c)
              = (Inr None, retried envs (Some cn) (dict_of c) l k @ snd (?body k) @ [Printed_giveup (l k)])
            \<and> waits (snd (log_convo_to_nomic envs (Some cn) (dict_of c))) = map backoff_strategy [0..<k]
            \<and> printed (snd (log_convo_to_nomic envs (Some cn) (dict_of c))) = map l [0..<max_tries]
            \<and> captured (snd (log_convo_to_nomic envs (Some cn) (dict_of c))) = []"
    if last: "Suc k = max_tries" and r: "fst (?body k) = Inl (Wrapped (l k))"
      and lk: "l k \<in> set LOCK_EXCEPTIONS"
  proof -
    obtain evs where "?body k = (Inl (Wrapped (l k)), evs)" using r by (cases "?body k") simp
    moreover have "m = 0" using m last by simp
    ultimately have "?rest = (Inr None, snd (?body k) @ [Printed_giveup (l k)])"
      unfolding m using lk by (simp add: giveup_hdlr_Wrapped)
    with split have eq: "log_convo_to_nomic envs (Some cn) (dict_of c)
              = (Inr None, retried envs (Some cn) (dict_of c) l k @ snd (?body k) @ [Printed_giveup (l k)])"
      by simp
    have "[0..<max_tries] = [0..<k] @ [k]" unfolding last[symmetric] by simp
    then show ?thesis unfolding eq
      by (simp add: waits_append printed_append captured_append w p cp log_convo_body_quiet
          log_convo_body_raise_no_capture[OF r])
  qed
  have s: "sorted_wrt (<) (map backoff_strategy [0..<k])"
    using sorted_wrt_backoff[of 0 k] by simp
  have e: "\<forall>n. backoff_strategy n = (3 / 2) * 10 ^ n
              \<and> backoff_strategy n < backoff_strategy (Suc n)"
    using backoff_strategy_increasing by (simp add: backoff_strategy_def)
  show ?thesis using a b s e by blast
qed

lemma lock_not_missing: "s \<in> set LOCK_EXCEPTIONS \<Longrightarrow> s \<noteq> NOT_CONFIGURED"
  by (auto simp: LOCK_EXCEPTIONS_def NOT_CONFIGURED_def)

lemma log_convo_body_wrapped:
  assumes "login_res env = None" and "log_convo_try env cn c = (Inl e, evs)"
    and "str_exn e \<noteq> NOT_CONFIGURED"
  shows "log_convo_body env (Some cn) (dict_of c) = (Inl (Wrapped (str_exn e)), evs)"
  using assms by (simp add: log_convo_body_dict log_convo_handled_def)

lemma log_convo_body_lock:
  assumes "login_res env = None" and "fst (log_convo_try env cn c) = Inl e"
    and "str_exn e \<in> set LOCK_EXCEPTIONS"
  shows "log_convo_body env (Some cn) (dict_of c)
           = (Inl (Wrapped (str_exn e)), snd (log_convo_try env cn c))"
proof -
  obtain evs where t: "log_convo_try env cn c = (Inl e, evs)"
    using assms(2) by (cases "log_convo_try env cn c") simp
  from log_convo_body_wrapped[OF assms(1) t lock_not_missing[OF assms(3)]] t
  show ?thesis by simp
qed


lemma ex_locked_body:
  "log_convo_body ex_remote_locked (Some ''CS101'') (dict_of ex_convo) = (Inl (Wrapped ex_lock_message), [])"
  by (simp add: ex_remote_locked_def ex_remote_def ex_lock_message_def log_convo_body_dict log_convo_handled_def
      log_convo_try_def NOT_CONFIGURED_def)

lemma ex_lock_message_listed: "ex_lock_message \<in> set LOCK_EXCEPTIONS"
  by (simp add: ex_lock_message_def LOCK_EXCEPTIONS_def)

lemma ex_locked_try:
  "log_convo_try ex_remote_locked ''CS101'' ex_convo = (Inl (RemoteError ex_lock_message), [])"
  by (simp add: ex_remote_locked_def ex_remote_def log_convo_try_def)

lemma ex_login_ok:
  "login_res ex_remote_locked = None" "login_res ex_remote = None"
  "login_res ex_remote_boot = None" "login_res ex_remote_down = None"
  by (simp_all add: ex_remote_locked_def ex_remote_boot_def ex_remote_no_map_def
      ex_remote_down_def ex_remote_def)


lemma add_point_rebuilt_iff:
  "(\<exists>s. fst (add_point env cn e m) = Inr s)
     \<longleftrightarrow> Rebuilt \<in> set (snd (add_point env cn e m)) \<and> rebuild_res env = None"
  unfolding add_point_def by (simp split: option.splits)

lemma update_point_rebuilt_iff:
  "(\<exists>s. fst (update_point env cn c rows latent last_id) = Inr s)
     \<longleftrightarrow> Rebuilt \<in> set (snd (update_point env cn c rows latent last_id))
          \<and> rebuild_res env = None"
  unfolding update_point_def
  by (simp add: case_prod_beta add_point_rebuilt_iff split: sum.splits option.splits)

lemma insert_point_rebuilt_iff:
  "(\<exists>s. fst (insert_point env cn c last_id) = Inr s)
     \<longleftrightarrow> Rebuilt \<in> set (snd (insert_point env cn c last_id)) \<and> rebuild_res env = None"
  unfolding insert_point_def
  by (simp add: Let_def case_prod_beta add_point_rebuilt_iff split: sum.splits option.splits)

text \<open>
  The \<open>try\<close> block runs to its \<open>return\<close> exactly when the rebuild of the map, its
  last call, was made and raised nothing.
\<close>

lemma log_convo_try_rebuilt_iff:
  "(\<exists>s. fst (log_convo_try env cn c) = Inr s)
     \<longleftrightarrow> Rebuilt \<in> set (snd (log_convo_try env cn c)) \<and> rebuild_res env = None"
  unfolding log_convo_try_def
  by (simp add: Let_def case_prod_beta update_point_rebuilt_iff insert_point_rebuilt_iff
      split: sum.splits)

lemma log_convo_body_Some_iff:
  assumes "login_res env = None"
  shows "fst (log_convo_body env (Some cn) (dict_of c)) = Inr (Some s)
           \<longleftrightarrow> fst (log_convo_try env cn c) = Inr s"
proof (cases "log_convo_try env cn c")
  case (Pair r evs)
  show ?thesis
  proof (cases r)
    case (Inr s')
    with Pair assms show ?thesis by (simp add: log_convo_body_dict log_convo_handled_def)
  next
    case (Inl e)
    with Pair assms show ?thesis
      by (cases "create_nomic_map env cn c")
        (simp add: log_convo_body_dict log_convo_handled_def split: sum.splits)
  qed
qed

lemma log_convo_body_lock_iff:
  assumes "login_res env = None" and "map_login_res env = None" and "client_res env = None"
  shows "fst (log_convo_body env (Some cn) (dict_of c)) = Inl (Wrapped l)
           \<and> l \<in> set LOCK_EXCEPTIONS
         \<longleftrightarrow> (\<exists>e. fst (log_convo_try env cn c) = Inl e \<and> str_exn e = l
                    \<and> l \<in> set LOCK_EXCEPTIONS)"
proof
  assume a: "fst (log_convo_body env (Some cn) (dict_of c)) = Inl (Wrapped l)
               \<and> l \<in> set LOCK_EXCEPTIONS"
  obtain r evs where t: "log_convo_try env cn c = (r, evs)" by (cases "log_convo_try env cn c")
  show "\<exists>e. fst (log_convo_try env cn c) = Inl e \<and> str_exn e = l \<and> l \<in> set LOCK_EXCEPTIONS"
  proof (cases r)
    case (Inr s)
    with t a assms(1) show ?thesis by (simp add: log_convo_body_dict log_convo_handled_def)
  next
    case (Inl e)
    show ?thesis
    proof (cases "str_exn e = NOT_CONFIGURED")
      case True
      from create_nomic_map_no_raise[OF assms(2,3), of cn c] obtain r' where
        "fst (create_nomic_map env cn c) = Inr r'" by blast
      with t Inl True a assms(1) show ?thesis
        by (cases "create_nomic_map env cn c")
          (simp add: log_convo_body_dict log_convo_handled_def)
    next
      case False
      with t Inl a assms(1) show ?thesis
        by (simp add: log_convo_body_dict log_convo_handled_def)
    qed
  qed
next
  assume "\<exists>e. fst (log_convo_try env cn c) = Inl e \<and> str_exn e = l \<and> l \<in> set LOCK_EXCEPTIONS"
  then obtain e where e: "fst (log_convo_try env cn c) = Inl e" "str_exn e = l"
    "l \<in> set LOCK_EXCEPTIONS" by blast
  from e(2,3) have "str_exn e \<in> set LOCK_EXCEPTIONS" by simp
  from log_convo_body_lock[OF assms(1) e(1) this] e(2,3)
  show "fst (log_convo_body env (Some cn) (dict_of c)) = Inl (Wrapped l)
          \<and> l \<in> set LOCK_EXCEPTIONS"
    by simp
qed

text \<open>
  The decorator returns a value other than \<open>None\<close> only from a call of the target that
  returned it, made after calls that each raised a lock message.
\<close>

lemma on_exception_Some:
  "fst (on_exception left t target) = Inr (Some s) \<Longrightarrow>
     \<exists>k<left. (\<forall>j. t \<le> j \<and> j < t + k \<longrightarrow>
                  (\<exists>l. fst (target j) = Inl (Wrapped l) \<and> l \<in> set LOCK_EXCEPTIONS))
              \<and> fst (target (t + k)) = Inr (Some s)"
proof (induction left arbitrary: t)
  case 0
  then show ?case by simp
next
  case (Suc left)
  obtain r evs where tt: "target t = (r, evs)" by (cases "target t")
  show ?case
  proof (cases r)
    case (Inr ret)
    with tt Suc.prems have "fst (target (t + 0)) = Inr (Some s)" by simp
    then show ?thesis by (intro exI[of _ 0]) auto
  next
    case (Inl e)
    show ?thesis
    proof (cases e)
      case (Wrapped l)
      have lock: "l \<in> set LOCK_EXCEPTIONS"
        and rest: "fst (on_exception left (Suc t) target) = Inr (Some s)"
        using Suc.prems tt Inl Wrapped
        by (auto simp: giveup_hdlr_Wrapped case_prod_beta split: if_splits)
      from Suc.IH[OF rest] obtain k where k: "k < left"
        and pre: "\<forall>j. Suc t \<le> j \<and> j < Suc t + k \<longrightarrow>
                    (\<exists>l. fst (target j) = Inl (Wrapped l) \<and> l \<in> set LOCK_EXCEPTIONS)"
        and at: "fst (target (Suc t + k)) = Inr (Some s)"
        by blast
      have "\<forall>j. t \<le> j \<and> j < t + Suc k \<longrightarrow>
                    (\<exists>l. fst (target j) = Inl (Wrapped l) \<and> l \<in> set LOCK_EXCEPTIONS)"
      proof (intro allI impI)
        fix j assume "t \<le> j \<and> j < t + Suc k"
        then consider "j = t" | "Suc t \<le> j \<and> j < Suc t + k" by linarith
        then show "\<exists>l. fst (target j) = Inl (Wrapped l) \<and> l \<in> set LOCK_EXCEPTIONS"
        proof cases
          case 1
          with tt Inl Wrapped lock show ?thesis by simp
        next
          case 2
          with pre show ?thesis by blast
        qed
      qed
      with k at show ?thesis by (intro exI[of _ "Suc k"]) auto
    qed (use Suc.prems tt Inl in \<open>simp_all add: giveup_hdlr_def\<close>)
  qed
qed

text \<open>
  C5, as amended. The login of line 55, the reads of lines 69-71, the concatenation of
  line 78 and, for a missing map, the login and the client of the relational store of
  lines 235-242 run outside every \<open>try\<close>. Let the arguments be readable (the
  dictionary under \<open>'conversation'\<close> has the three keys and the course name is a
  string), and let these calls succeed in each of the five tries. Then the decorated
  function raises nothing, and it returns the text \<open>Successfully logged for <course>\<close>
  or \<open>None\<close>. It returns the text exactly when some call of the body, made after calls
  whose \<open>try\<close> block raised a lock message, rebuilt the map without an exception, the
  last step of the \<open>try\<close> block; in every other case it returns \<open>None\<close>. When a call
  of the body, after calls that raised lock messages, raises inside the \<open>try\<close> an
  exception whose text is neither a lock message nor the missing-map message, that
  exception is printed and sent to the error tracker once, no further call is made and
  the result is \<open>None\<close>.
\<close>

theorem no_exception_when_setup_succeeds:
  assumes "read_args course_arg conversation_arg = Inr (cn, c)"
    and "\<forall>k<max_tries. login_res (envs k) = None \<and> map_login_res (envs k) = None
                            \<and> client_res (envs k) = None"
  shows "(fst (log_convo_to_nomic envs course_arg conversation_arg) = Inr None
          \<or> fst (log_convo_to_nomic envs course_arg conversation_arg)
              = Inr (Some (''Successfully logged for '' @ cn)))
       \<and> (fst (log_convo_to_nomic envs course_arg conversation_arg)
              = Inr (Some (''Successfully logged for '' @ cn))
            \<longleftrightarrow> (\<exists>k<max_tries.
                   (\<forall>j<k. \<exists>e. fst (log_convo_try (envs j) cn c) = Inl e
                                \<and> str_exn e \<in> set LOCK_EXCEPTIONS)
                   \<and> Rebuilt \<in> set (snd (log_convo_try (envs k) cn c))
                   \<and> rebuild_res (envs k) = None))
       \<and> (\<forall>k e evs.
             k < max_tries
             \<and> (\<forall>j<k. fst (log_convo_try (envs j) cn c) = Inl (x j)
                        \<and> str_exn (x j) \<in> set LOCK_EXCEPTIONS)
             \<and> log_convo_try (envs k) cn c = (Inl e, evs)
             \<and> str_exn e \<noteq> NOT_CONFIGURED \<and> str_exn e \<notin> set LOCK_EXCEPTIONS \<longrightarrow>
             log_convo_to_nomic envs course_arg conversation_arg
               = (Inr None,
                  retried envs course_arg conversation_arg (\<lambda>j. str_exn (x j)) k @ evs
                    @ [Printed_giveup (str_exn e), Captured (Wrapped (str_exn e))])
             \<and> captured (snd (log_convo_to_nomic envs course_arg conversation_arg))
                 = [Wrapped (str_exn e)])"
proof -
  from assms(1) have args: "course_arg = Some cn" "conversation_arg = dict_of c"
    by (simp_all add: read_args_iff)
  let ?body = "\<lambda>j. log_convo_body (envs j) (Some cn) (dict_of c)"
  let ?L = "log_convo_to_nomic envs (Some cn) (dict_of c)"
  let ?ok = "''Successfully logged for '' @ cn"
  have ready: "login_res (envs k) = None" "map_login_res (envs k) = None"
    "client_res (envs k) = None" if "k < max_tries" for k
    using assms(2) that by simp_all
  have "fst (on_exception max_tries 0 ?body) = Inr None
         \<or> fst (on_exception max_tries 0 ?body) = Inr (Some ?ok)"
  proof (rule on_exception_result)
    fix k assume "0 \<le> k" "k < 0 + max_tries"
    then have "login_res (envs k) = None" "map_login_res (envs k) = None"
      "client_res (envs k) = None" using ready by simp_all
    then show "(\<exists>s. fst (?body k) = Inl (Wrapped s)) \<or> fst (?body k) = Inr None
               \<or> fst (?body k) = Inr (Some ?ok)"
      by (rule log_convo_body_result)
  qed
  then have first: "fst ?L = Inr None \<or> fst ?L = Inr (Some ?ok)"
    by (simp add: log_convo_to_nomic_def)
  have lift: "\<forall>j<k. fst (?body j) = Inl (Wrapped (str_exn (y j)))
                     \<and> str_exn (y j) \<in> set LOCK_EXCEPTIONS"
    if "k < max_tries"
      and "\<forall>j<k. fst (log_convo_try (envs j) cn c) = Inl (y j)
                    \<and> str_exn (y j) \<in> set LOCK_EXCEPTIONS"
    for k y
    using that ready(1) by (simp add: log_convo_body_lock)
  have iff: "fst ?L = Inr (Some ?ok)
            \<longleftrightarrow> (\<exists>k<max_tries.
                   (\<forall>j<k. \<exists>e. fst (log_convo_try (envs j) cn c) = Inl e
                                \<and> str_exn e \<in> set LOCK_EXCEPTIONS)
                   \<and> Rebuilt \<in> set (snd (log_convo_try (envs k) cn c))
                   \<and> rebuild_res (envs k) = None)"
  proof
    assume "fst ?L = Inr (Some ?ok)"
    then have "fst (on_exception max_tries 0 ?body) = Inr (Some ?ok)"
      by (simp add: log_convo_to_nomic_def)
    from on_exception_Some[OF this] obtain k where k: "k < max_tries"
      and pre: "\<forall>j. 0 \<le> j \<and> j < 0 + k \<longrightarrow>
                  (\<exists>l. fst (?body j) = Inl (Wrapped l) \<and> l \<in> set LOCK_EXCEPTIONS)"
      and at: "fst (?body (0 + k)) = Inr (Some ?ok)"
      by blast
    have locks: "\<exists>e. fst (log_convo_try (envs j) cn c) = Inl e
                    \<and> str_exn e \<in> set LOCK_EXCEPTIONS" if "j < k" for j
    proof -
      from that k have j: "j < max_tries" by simp
      from pre that obtain l where
        "fst (?body j) = Inl (Wrapped l) \<and> l \<in> set LOCK_EXCEPTIONS" by auto
      with log_convo_body_lock_iff[OF ready[OF j], of cn c l] show ?thesis by auto
    qed
    have "fst (log_convo_try (envs k) cn c) = Inr ?ok"
      using at log_convo_body_Some_iff[OF ready(1)[OF k], of cn c ?ok] by simp
    then have "\<exists>s. fst (log_convo_try (envs k) cn c) = Inr s" by blast
    then have "Rebuilt \<in> set (snd (log_convo_try (envs k) cn c)) \<and> rebuild_res (envs k) = None"
      by (simp only: log_convo_try_rebuilt_iff)
    with k locks show "\<exists>k<max_tries.
                   (\<forall>j<k. \<exists>e. fst (log_convo_try (envs j) cn c) = Inl e
                                \<and> str_exn e \<in> set LOCK_EXCEPTIONS)
                   \<and> Rebuilt \<in> set (snd (log_convo_try (envs k) cn c))
                   \<and> rebuild_res (envs k) = None"
      by blast
  next
    assume "\<exists>k<max_tries.
                   (\<forall>j<k. \<exists>e. fst (log_convo_try (envs j) cn c) = Inl e
                                \<and> str_exn e \<in> set LOCK_EXCEPTIONS)
                   \<and> Rebuilt \<in> set (snd (log_convo_try (envs k) cn c))
                   \<and> rebuild_res (envs k) = None"
    then obtain k where k: "k < max_tries"
      and locks: "\<forall>j<k. \<exists>e. fst (log_convo_try (envs j) cn c) = Inl e
                                \<and> str_exn e \<in> set LOCK_EXCEPTIONS"
      and built: "Rebuilt \<in> set (snd (log_convo_try (envs k) cn c)) \<and> rebuild_res (envs k) = None"
      by blast
    from locks obtain y where y: "\<forall>j<k. fst (log_convo_try (envs j) cn c) = Inl (y j)
                                \<and> str_exn (y j) \<in> set LOCK_EXCEPTIONS"
      by metis
    from built have "\<exists>s. fst (log_convo_try (envs k) cn c) = Inr s"
      by (simp only: log_convo_try_rebuilt_iff)
    then obtain s evs where t: "log_convo_try (envs k) cn c = (Inr s, evs)"
      by (cases "log_convo_try (envs k) cn c") auto
    from log_convo_try_result[OF t] t have "fst (log_convo_try (envs k) cn c) = Inr ?ok"
      by simp
    then have at: "fst (?body k) = Inr (Some ?ok)"
      using log_convo_body_Some_iff[OF ready(1)[OF k], of cn c ?ok] by simp
    from wrapped_failures_are_retried[OF k lift[OF k y], THEN conjunct1, rule_format, OF at]
    show "fst ?L = Inr (Some ?ok)" by simp
  qed
  have second: "?L = (Inr None,
                  retried envs (Some cn) (dict_of c) (\<lambda>j. str_exn (x j)) k @ evs
                    @ [Printed_giveup (str_exn e), Captured (Wrapped (str_exn e))])
             \<and> captured (snd ?L) = [Wrapped (str_exn e)]"
    if k: "k < max_tries"
      and tlocks: "\<forall>j<k. fst (log_convo_try (envs j) cn c) = Inl (x j)
                        \<and> str_exn (x j) \<in> set LOCK_EXCEPTIONS"
      and tr: "log_convo_try (envs k) cn c = (Inl e, evs)"
      and nc: "str_exn e \<noteq> NOT_CONFIGURED" and nl: "str_exn e \<notin> set LOCK_EXCEPTIONS"
    for k e evs
  proof -
    let ?l = "\<lambda>j. str_exn (x j)"
    note locks = lift[OF k tlocks]
    have bk: "?body k = (Inl (Wrapped (str_exn e)), evs)"
      using ready(1)[OF k] tr nc by (rule log_convo_body_wrapped)
    let ?rest = "on_exception (max_tries - k) k ?body"
    have split: "?L = (fst ?rest, retried envs (Some cn) (dict_of c) ?l k @ snd ?rest)"
      unfolding log_convo_to_nomic_def retried_def
      using on_exception_transient[of 0 k ?body ?l max_tries] k locks by simp
    obtain m where m: "max_tries - k = Suc m" using k by (cases "max_tries - k") auto
    have "?rest = (Inr None, evs @ [Printed_giveup (str_exn e), Captured (Wrapped (str_exn e))])"
      unfolding m using bk nl by (simp add: giveup_hdlr_Wrapped)
    with split have eq: "?L = (Inr None,
                  retried envs (Some cn) (dict_of c) ?l k @ evs
                    @ [Printed_giveup (str_exn e), Captured (Wrapped (str_exn e))])"
      by simp
    have raised: "fst (?body j) = Inl (Wrapped (?l j))" if "j \<in> set [0..<k]" for j
      using locks that by simp
    have cp: "captured (retried envs (Some cn) (dict_of c) ?l k) = []"
      unfolding retried_def using raised by (rule retried_calls_events(3))
    have "captured evs = []"
      using log_convo_try_quiet[of "envs k" cn c] tr by simp
    with cp show ?thesis unfolding eq by (simp add: captured_append)
  qed
  show ?thesis unfolding args using first iff second by blast
qed

lemma ex_down_try:
  "log_convo_try ex_remote_down ''CS101'' ex_convo = (Inl (RemoteError ''Service unavailable''), [])"
  by (simp add: ex_remote_down_def ex_remote_def log_convo_try_def)

lemma ex_update_try:
  "log_convo_try ex_remote ''CS101'' ex_convo =
     (Inr ''Successfully logged for CS101'',
      [Deleted (Whole 2), Added [10] ex_updated, Rebuilt])"
  by (simp add: ex_defs run_defs)

lemma ex_setup_ok:
  "map_login_res ex_remote = None" "client_res ex_remote = None"
  "map_login_res ex_remote_locked = None" "client_res ex_remote_locked = None"
  "map_login_res ex_remote_down = None" "client_res ex_remote_down = None"
  "rebuild_res ex_remote = None"
  by (simp_all add: ex_remote_locked_def ex_remote_down_def ex_remote_def)

theorem no_exception_when_setup_succeeds_witness:
  "read_args (Some ''CS101'') (dict_of ex_convo) = Inr (''CS101'', ex_convo)
   \<and> login_res ex_remote_down = None \<and> map_login_res ex_remote_down = None
   \<and> client_res ex_remote_down = None
   \<and> log_convo_try ex_remote_down ''CS101'' ex_convo
       = (Inl (RemoteError ''Service unavailable''), [])
   \<and> ''Service unavailable'' \<noteq> NOT_CONFIGURED
   \<and> ''Service unavailable'' \<notin> set LOCK_EXCEPTIONS
   \<and> log_convo_to_nomic (\<lambda>k. ex_remote_down) (Some ''CS101'') (dict_of ex_convo)
       = (Inr None,
          [Printed_giveup ''Service unavailable'', Captured (Wrapped ''Service unavailable'')])
   \<and> captured (snd (log_convo_to_nomic (\<lambda>k. ex_remote_down) (Some ''CS101'') (dict_of ex_convo)))
       = [Wrapped ''Service unavailable'']
   \<and> login_res ex_remote_locked = None \<and> map_login_res ex_remote_locked = None
   \<and> client_res ex_remote_locked = None
   \<and> login_res ex_remote = None \<and> map_login_res ex_remote = None
   \<and> client_res ex_remote = None
   \<and> 2 < max_tries
   \<and> fst (log_convo_try (ex_locked_twice 0) ''CS101'' ex_convo)
       = Inl (RemoteError ex_lock_message)
   \<and> fst (log_convo_try (ex_locked_twice 1) ''CS101'' ex_convo)
       = Inl (RemoteError ex_lock_message)
   \<and> str_exn (RemoteError ex_lock_message) \<in> set LOCK_EXCEPTIONS
   \<and> Rebuilt \<in> set (snd (log_convo_try (ex_locked_twice 2) ''CS101'' ex_convo))
   \<and> rebuild_res (ex_locked_twice 2) = None
   \<and> fst (log_convo_to_nomic ex_locked_twice (Some ''CS101'') (dict_of ex_convo))
       = Inr (Some ''Successfully logged for CS101'')"
proof -
  have r: "read_args (Some ''CS101'') (dict_of ex_convo) = Inr (''CS101'', ex_convo)"
    by (rule read_args_dict_of)
  have s: "login_res ex_remote_down = None" "map_login_res ex_remote_down = None"
    "client_res ex_remote_down = None"
    "login_res ex_remote_locked = None" "map_login_res ex_remote_locked = None"
    "client_res ex_remote_locked = None"
    "login_res ex_remote = None" "map_login_res ex_remote = None"
    "client_res ex_remote = None"
    by (simp_all add: ex_login_ok ex_setup_ok)
  then have h: "\<forall>k<max_tries. login_res ((\<lambda>k. ex_remote_down) k) = None
      \<and> map_login_res ((\<lambda>k. ex_remote_down) k) = None
      \<and> client_res ((\<lambda>k. ex_remote_down) k) = None"
    by simp
  have n: "''Service unavailable'' \<noteq> NOT_CONFIGURED"
    "''Service unavailable'' \<notin> set LOCK_EXCEPTIONS"
    by (simp_all add: NOT_CONFIGURED_def LOCK_EXCEPTIONS_def)
  have k: "0 < max_tries" and k2: "2 < max_tries" by (simp_all add: max_tries_def)
  let ?x = "\<lambda>j::nat. RemoteError ex_lock_message"
  have pre: "0 < max_tries
        \<and> (\<forall>j<(0::nat). fst (log_convo_try ex_remote_down ''CS101'' ex_convo) = Inl (?x j)
                   \<and> str_exn (?x j) \<in> set LOCK_EXCEPTIONS)
        \<and> log_convo_try ex_remote_down ''CS101'' ex_convo
            = (Inl (RemoteError ''Service unavailable''), [])
        \<and> str_exn (RemoteError ''Service unavailable'') \<noteq> NOT_CONFIGURED
        \<and> str_exn (RemoteError ''Service unavailable'') \<notin> set LOCK_EXCEPTIONS"
    using k n ex_down_try by simp
  note t = no_exception_when_setup_succeeds[OF r h, of ?x]
  from t[THEN conjunct2, THEN conjunct2, rule_format, OF pre]
  have down: "log_convo_to_nomic (\<lambda>k. ex_remote_down) (Some ''CS101'') (dict_of ex_convo)
          = (Inr None,
             [Printed_giveup ''Service unavailable'', Captured (Wrapped ''Service unavailable'')])"
    "captured (snd (log_convo_to_nomic (\<lambda>k. ex_remote_down) (Some ''CS101'') (dict_of ex_convo)))
            = [Wrapped ''Service unavailable'']"
    by (simp_all add: retried_def)
  have h2: "\<forall>k<max_tries. login_res (ex_locked_twice k) = None
      \<and> map_login_res (ex_locked_twice k) = None
      \<and> client_res (ex_locked_twice k) = None"
    using s by (simp add: ex_locked_twice_def)
  have msg: "str_exn (RemoteError ex_lock_message) \<in> set LOCK_EXCEPTIONS"
    using ex_lock_message_listed by simp
  have locked:
    "fst (log_convo_try (ex_locked_twice 0) ''CS101'' ex_convo) = Inl (RemoteError ex_lock_message)"
    "fst (log_convo_try (ex_locked_twice 1) ''CS101'' ex_convo) = Inl (RemoteError ex_lock_message)"
    by (simp_all add: ex_locked_twice_def ex_locked_try)
  have built: "Rebuilt \<in> set (snd (log_convo_try (ex_locked_twice 2) ''CS101'' ex_convo))"
    "rebuild_res (ex_locked_twice 2) = None"
    by (simp_all add: ex_locked_twice_def ex_update_try ex_setup_ok)
  have ex: "\<exists>k<max_tries.
       (\<forall>j<k. \<exists>e. fst (log_convo_try (ex_locked_twice j) ''CS101'' ex_convo) = Inl e
                    \<and> str_exn e \<in> set LOCK_EXCEPTIONS)
       \<and> Rebuilt \<in> set (snd (log_convo_try (ex_locked_twice k) ''CS101'' ex_convo))
       \<and> rebuild_res (ex_locked_twice k) = None"
  proof (intro exI[of _ 2] conjI allI impI)
    show "2 < max_tries" by (rule k2)
  next
    fix j :: nat assume "j < 2"
    then have "j = 0 \<or> j = 1" by auto
    with locked msg
    show "\<exists>e. fst (log_convo_try (ex_locked_twice j) ''CS101'' ex_convo) = Inl e
                    \<and> str_exn e \<in> set LOCK_EXCEPTIONS"
      by auto
  qed (rule built)+
  from no_exception_when_setup_succeeds[OF r h2, THEN conjunct2, THEN conjunct1, THEN iffD2, OF ex]
  have ok: "fst (log_convo_to_nomic ex_locked_twice (Some ''CS101'') (dict_of ex_convo))
       = Inr (Some ''Successfully logged for CS101'')"
    by simp
  show ?thesis using r s n ex_down_try down k2 locked msg built ok by simp
qed

text \<open>
  C5 as stated fails three times. When the map service fails for good, the decorated
  function returns \<open>None\<close>, which is no status text. When the login of line 55 raises,
  the handler \<open>giveup_hdlr\<close> raises itself on the unwrapped exception, and that
  exception reaches the caller. When the argument has no key \<open>'conversation'\<close>,
  line 69 raises \<open>KeyError\<close> before the \<open>try\<close> and the same happens, although
  every call to a service would succeed.
\<close>

theorem status_string_counterexample:
  "log_convo_to_nomic (\<lambda>k. ex_remote_down) (Some ''CS101'') (dict_of ex_convo)
     = (Inr None,
        [Printed_giveup ''Service unavailable'', Captured (Wrapped ''Service unavailable'')])
   \<and> log_convo_to_nomic (\<lambda>k. ex_remote_no_login) (Some ''CS101'') (dict_of ex_convo)
       = (Inl TypeError, [])
   \<and> log_convo_to_nomic (\<lambda>k. ex_remote) (Some ''CS101'') None = (Inl TypeError, [])"
proof -
  have "log_convo_to_nomic (\<lambda>k. ex_remote_down) (Some ''CS101'') (dict_of ex_convo)
     = (Inr None,
        [Printed_giveup ''Service unavailable'', Captured (Wrapped ''Service unavailable'')])"
    by (simp add: log_convo_to_nomic_def max_tries_def eval_nat_numeral giveup_hdlr_def
      LOCK_EXCEPTIONS_def NOT_CONFIGURED_def log_convo_body_dict log_convo_handled_def
      log_convo_try_def ex_remote_down_def ex_remote_def)
  moreover have "log_convo_to_nomic (\<lambda>k. ex_remote_no_login) (Some ''CS101'') (dict_of ex_convo)
       = (Inl TypeError, [])"
    by (simp add: log_convo_to_nomic_def max_tries_def eval_nat_numeral giveup_hdlr_def
      log_convo_body_dict ex_remote_no_login_def ex_remote_def)
  moreover have "log_convo_to_nomic (\<lambda>k. ex_remote) (Some ''CS101'') None = (Inl TypeError, [])"
    by (simp add: log_convo_to_nomic_def max_tries_def eval_nat_numeral giveup_hdlr_def
      log_convo_body_def read_args_def ex_remote_def)
  ultimately show ?thesis by simp
qed


subsection \<open>Creating the map of a course\<close>


lemma row_metadata_fields:
  assumes "row_metadata clk c i row = Inr (fq, m, b)"
  shows "row_id m = Whole i" "conversation_id m = h_convo_id row"
    "course m = h_course_name row" "user_email m = h_user_email row"
    "created_at m = h_created_at row" "modified_at m = clk (nat (i - 1))"
    "b = (h_convo_id row = log_conversation_id c)"
    "first_query m = fq" "\<exists>fm. first_message_text (h_messages row) = Inr fm \<and> fq = Text fm"
    "\<exists>t. append_lines [] (h_messages row) = Inr t
        \<and> (if h_convo_id row = log_conversation_id c
            then append_lines t (log_messages c) = Inr (conversation m)
            else conversation m = t)"
  using assms unfolding row_metadata_def by (auto split: sum.splits if_splits)

lemma rows_loop_Inr:
  assumes "rows_loop clk c rows uq md i ex = Inr (uq', md', i', ex')"
  shows "\<exists>nq new. uq' = uq @ nq \<and> md' = md @ new
           \<and> length nq = length rows \<and> length new = length rows
           \<and> i' = i + int (length rows)
           \<and> ex' = (ex \<or> (\<exists>r \<in> set rows. h_convo_id r = log_conversation_id c))
           \<and> (\<forall>k < length rows.
                 row_metadata clk c (i + int k) (rows ! k)
                   = Inr (nq ! k, new ! k, h_convo_id (rows ! k) = log_conversation_id c))"
  using assms
proof (induction rows arbitrary: uq md i ex)
  case Nil
  then show ?case by simp
next
  case (Cons row rows)
  from Cons.prems obtain fq m b where
    rm: "row_metadata clk c i row = Inr (fq, m, b)" and
    rest: "rows_loop clk c rows (uq @ [fq]) (md @ [m]) (i + 1) (ex \<or> b) = Inr (uq', md', i', ex')"
    by (auto split: sum.splits)
  have b: "b = (h_convo_id row = log_conversation_id c)" using rm by (rule row_metadata_fields(7))
  from Cons.IH[OF rest] obtain nq new where
    ih: "uq' = (uq @ [fq]) @ nq" "md' = (md @ [m]) @ new"
      "length nq = length rows" "length new = length rows"
      "i' = i + 1 + int (length rows)"
      "ex' = ((ex \<or> b) \<or> (\<exists>r \<in> set rows. h_convo_id r = log_conversation_id c))"
      "\<forall>k < length rows.
          row_metadata clk c (i + 1 + int k) (rows ! k)
            = Inr (nq ! k, new ! k, h_convo_id (rows ! k) = log_conversation_id c)"
    by blast
  have each: "\<forall>k < length (row # rows).
                 row_metadata clk c (i + int k) ((row # rows) ! k)
                   = Inr ((fq # nq) ! k, (m # new) ! k,
                          h_convo_id ((row # rows) ! k) = log_conversation_id c)"
  proof (intro allI impI)
    fix k assume k: "k < length (row # rows)"
    show "row_metadata clk c (i + int k) ((row # rows) ! k)
                   = Inr ((fq # nq) ! k, (m # new) ! k,
                          h_convo_id ((row # rows) ! k) = log_conversation_id c)"
    proof (cases k)
      case 0
      with rm b show ?thesis by simp
    next
      case (Suc k')
      with k have "k' < length rows" by simp
      with ih(7) have "row_metadata clk c (i + 1 + int k') (rows ! k')
            = Inr (nq ! k', new ! k', h_convo_id (rows ! k') = log_conversation_id c)" by simp
      moreover have "i + 1 + int k' = i + int k" using Suc by simp
      ultimately show ?thesis using Suc by simp
    qed
  qed
  show ?case
    apply (rule exI[of _ "fq # nq"], rule exI[of _ "m # new"])
    using ih(1-6) b each by auto
qed


lemma append_lines_readable:
  "\<forall>m \<in> set ms. \<not> isl (content_text (content m)) \<Longrightarrow> \<exists>t. append_lines acc ms = Inr t"
proof (induction ms arbitrary: acc)
  case Nil
  show ?case by simp
next
  case (Cons m ms)
  then obtain s where "content_text (content m) = Inr s"
    by (cases "content_text (content m)") auto
  then have "\<exists>l. message_line m = Inr l" by (simp add: message_line_def Let_def)
  with Cons show ?case by auto
qed

lemma first_message_text_readable:
  "ms \<noteq> [] \<Longrightarrow> \<forall>m \<in> set ms. \<not> isl (content_text (content m)) \<Longrightarrow>
     \<exists>s. first_message_text ms = Inr s"
proof -
  assume "ms \<noteq> []" and r: "\<forall>m \<in> set ms. \<not> isl (content_text (content m))"
  then obtain m rest where ms: "ms = m # rest" by (cases ms) auto
  with r have "\<not> isl (content_text (content m))" by simp
  then obtain s where "content_text (content m) = Inr s"
    by (cases "content_text (content m)") auto
  with ms show ?thesis by (simp add: first_message_text_def)
qed

lemma row_metadata_readable:
  assumes "h_messages row \<noteq> []"
    and "\<forall>m \<in> set (h_messages row). \<not> isl (content_text (content m))"
    and "\<forall>m \<in> set (log_messages c). \<not> isl (content_text (content m))"
  shows "\<exists>res. row_metadata clk c i row = Inr res"
proof -
  from first_message_text_readable[OF assms(1,2)] obtain s where
    s: "first_message_text (h_messages row) = Inr s" by blast
  from append_lines_readable[OF assms(2)] obtain t where
    t: "append_lines [] (h_messages row) = Inr t" by blast
  from append_lines_readable[OF assms(3)] obtain t' where
    t': "append_lines t (log_messages c) = Inr t'" by blast
  show ?thesis unfolding row_metadata_def using s t t' by auto
qed

lemma rows_loop_readable:
  assumes "\<forall>r \<in> set rows. h_messages r \<noteq> []
             \<and> (\<forall>m \<in> set (h_messages r). \<not> isl (content_text (content m)))"
    and "\<forall>m \<in> set (log_messages c). \<not> isl (content_text (content m))"
  shows "\<exists>res. rows_loop clk c rows uq md i ex = Inr res"
  using assms(1)
proof (induction rows arbitrary: uq md i ex)
  case Nil
  show ?case by simp
next
  case (Cons row rows)
  from Cons.prems have "h_messages row \<noteq> []"
    "\<forall>m \<in> set (h_messages row). \<not> isl (content_text (content m))" by simp_all
  from row_metadata_readable[OF this assms(2)] obtain fq m b where
    "row_metadata clk c i row = Inr (fq, m, b)" by (metis prod_cases3)
  moreover from Cons.prems have "\<forall>r \<in> set rows. h_messages r \<noteq> []
             \<and> (\<forall>m \<in> set (h_messages r). \<not> isl (content_text (content m)))" by simp
  from Cons.IH[OF this] have "\<exists>res. rows_loop clk c rows (uq @ [fq]) (md @ [m]) (i + 1) (ex \<or> b) = Inr res" .
  ultimately show ?case by simp
qed

lemma log_row_fields:
  assumes "log_row clk cn c i = Inr (q, m)"
  shows "row_id m = Whole i" "conversation_id m = log_conversation_id c"
    "course m = cn" "user_email m = log_user_email c"
    "append_lines [] (log_messages c) = Inr (conversation m)"
    "first_query m = q" "\<exists>m0 ms. log_messages c = m0 # ms \<and> q = content m0"
  using assms unfolding log_row_def by (auto split: sum.splits list.splits)

lemma log_row_readable:
  assumes "log_messages c \<noteq> []"
    and "\<forall>m \<in> set (log_messages c). \<not> isl (content_text (content m))"
  shows "\<exists>res. log_row clk cn c i = Inr res"
proof -
  from append_lines_readable[OF assms(2)] obtain t where
    "append_lines [] (log_messages c) = Inr t" by blast
  with assms(1) show ?thesis unfolding log_row_def by (cases "log_messages c") simp_all
qed

text \<open>What \<open>assemble\<close> returns, row by row.\<close>

lemma assemble_Inr:
  assumes "assemble clk cn c data = Inr (uq, md)"
  shows "length md = (if \<exists>r \<in> set data. h_convo_id r = log_conversation_id c
                      then length data else length data + 1)"
    and "length uq = length md"
    and "\<forall>k < length data. \<exists>fq.
           row_metadata clk c (1 + int k) (data ! k)
             = Inr (fq, md ! k, h_convo_id (data ! k) = log_conversation_id c) \<and> uq ! k = fq"
    and "(\<forall>r \<in> set data. h_convo_id r \<noteq> log_conversation_id c) \<longrightarrow>
           log_row clk cn c (1 + int (length data)) = Inr (uq ! length data, md ! length data)"
proof -
  from assms obtain uq0 md0 i0 ex0 where
    loop: "rows_loop clk c data [] [] 1 False = Inr (uq0, md0, i0, ex0)"
    unfolding assemble_def by (auto split: sum.splits)
  from rows_loop_Inr[OF loop] have
    l: "length uq0 = length data" "length md0 = length data"
    and i0: "i0 = 1 + int (length data)"
    and ex0: "ex0 = (\<exists>r \<in> set data. h_convo_id r = log_conversation_id c)"
    and each: "\<forall>k < length data.
                 row_metadata clk c (1 + int k) (data ! k)
                   = Inr (uq0 ! k, md0 ! k, h_convo_id (data ! k) = log_conversation_id c)"
    by auto
  show "length md = (if \<exists>r \<in> set data. h_convo_id r = log_conversation_id c
                      then length data else length data + 1)"
    using assms loop l ex0 unfolding assemble_def by (auto split: sum.splits if_splits)
  show "length uq = length md"
    using assms loop l ex0 unfolding assemble_def by (auto split: sum.splits if_splits)
  have pre: "\<exists>uq1 md1. uq = uq0 @ uq1 \<and> md = md0 @ md1"
    using assms loop unfolding assemble_def by (auto split: sum.splits if_splits)
  show "\<forall>k < length data. \<exists>fq.
           row_metadata clk c (1 + int k) (data ! k)
             = Inr (fq, md ! k, h_convo_id (data ! k) = log_conversation_id c) \<and> uq ! k = fq"
    using each pre l by (auto simp: nth_append)
  show "(\<forall>r \<in> set data. h_convo_id r \<noteq> log_conversation_id c) \<longrightarrow>
           log_row clk cn c (1 + int (length data)) = Inr (uq ! length data, md ! length data)"
    using assms loop l ex0 i0 unfolding assemble_def
    by (auto simp: nth_append split: sum.splits if_splits)
qed

lemma assemble_readable:
  assumes "\<forall>r \<in> set data. h_messages r \<noteq> []
             \<and> (\<forall>m \<in> set (h_messages r). \<not> isl (content_text (content m)))"
    and "log_messages c \<noteq> []"
    and "\<forall>m \<in> set (log_messages c). \<not> isl (content_text (content m))"
  shows "\<exists>res. assemble clk cn c data = Inr res"
proof -
  from rows_loop_readable[OF assms(1,3)] obtain uq0 md0 i0 ex0 where
    loop: "rows_loop clk c data [] [] 1 False = Inr (uq0, md0, i0, ex0)"
    by (metis prod_cases4)
  from log_row_readable[OF assms(2,3)] obtain q m where "log_row clk cn c i0 = Inr (q, m)"
    by (metis surj_pair)
  with loop show ?thesis unfolding assemble_def by simp
qed


lemmas boot_defs = create_nomic_map_def create_map_try_def assemble_def row_metadata_def
  log_row_def first_message_text_def message_line_def content_text_def
  ex_remote_boot_def ex_remote_boot_c2_def ex_remote_no_map_def ex_remote_def ex_history_def
  ex_history_c2_def ex_ids_def ex_hist_row_def ex_convo_def ex_messages_def ex_bulk_def ex_bulk_c2_def
  ex_bulk_row_def ex_hello_def ex_lines3_def newline_def emoji_user_def emoji_other_def
  NOT_CONFIGURED_def

lemma ex_boot_run:
  "create_nomic_map ex_remote_boot ''CS101'' ex_convo =
     (Inr (Some ''Successfully created Nomic map for CS101''),
      [Embedded (replicate 19 (Text ''Hello'') @ [Text ''What is a heap?'']),
       Bulk_created (replicate 20 30) ex_bulk])"
  by (simp add: boot_defs eval_nat_numeral)

lemma ex_boot_c2_run:
  "create_nomic_map ex_remote_boot_c2 ''CS101'' ex_convo =
     (Inr (Some ''Successfully created Nomic map for CS101''),
      [Embedded (replicate 19 (Text ''Hello'')), Bulk_created (replicate 19 30) ex_bulk_c2])"
  by (simp add: boot_defs eval_nat_numeral)


lemma create_nomic_map_Bulk_created:
  assumes "Bulk_created embs md \<in> set (snd (create_nomic_map env cn c))"
  shows "\<exists>data uq. query_res env = Inr data \<and> 19 \<le> length data
           \<and> assemble (map_clock env) cn c data = Inr (uq, md) \<and> embed_res env uq = Inr embs"
  using assms unfolding create_nomic_map_def create_map_try_def
  by (auto simp: case_prod_beta split: sum.splits option.splits if_splits)

lemma create_nomic_map_progress:
  assumes "map_login_res env = None" and "client_res env = None"
    and "query_res env = Inr data" and "19 \<le> length data"
    and "assemble (map_clock env) cn c data = Inr (uq, md)" and "embed_res env uq = Inr embs"
  shows "Bulk_created embs md \<in> set (snd (create_nomic_map env cn c))"
  using assms unfolding create_nomic_map_def create_map_try_def
  by (auto simp: case_prod_beta split: sum.splits option.splits if_splits)

text \<open>
  C8. Let the login and the client of the relational store succeed and let the query
  return the rows \<open>data\<close>. With fewer than 19 rows \<open>create_nomic_map\<close> returns
  \<open>None\<close> and asks nothing more of the outside. A map is only created from 19 rows or
  more, and then from one row of metadata for each row of \<open>data\<close>, in their order,
  followed by one row for the conversation being logged if no row of \<open>data\<close> has its
  id: \<open>length data\<close> rows if some row has the id, \<open>length data + 1\<close> if none has,
  so 19 or 20 for 19 rows. Their \<open>id\<close>s are 1, 2, 3, ... in this order. The transcript
  of every row that is not the conversation being logged is what the formatter makes of
  the messages of the row of \<open>data\<close>, and the transcript of the added row is what the
  formatter makes of the messages of the conversation. The map is created whenever there
  are 19 rows or more, every conversation has a first message, the text of every message
  can be read and the embedding model answers.
\<close>

theorem create_nomic_map_threshold_and_rows:
  assumes "map_login_res env = None" and "client_res env = None"
    and "query_res env = Inr data"
  shows "(length data < 19 \<longrightarrow> create_nomic_map env cn c = (Inr None, []))
       \<and> (\<forall>embs md. Bulk_created embs md \<in> set (snd (create_nomic_map env cn c)) \<longrightarrow>
            19 \<le> length data
            \<and> length md = (if \<exists>r \<in> set data. h_convo_id r = log_conversation_id c
                            then length data else length data + 1)
            \<and> map row_id md = map (\<lambda>k. Whole (1 + int k)) [0..<length md]
            \<and> (\<forall>k < length data.
                  conversation_id (md ! k) = h_convo_id (data ! k)
                  \<and> (h_convo_id (data ! k) \<noteq> log_conversation_id c \<longrightarrow>
                       append_lines [] (h_messages (data ! k)) = Inr (conversation (md ! k))))
            \<and> ((\<forall>r \<in> set data. h_convo_id r \<noteq> log_conversation_id c) \<longrightarrow>
                  conversation_id (md ! length data) = log_conversation_id c
                  \<and> append_lines [] (log_messages c) = Inr (conversation (md ! length data))))
       \<and> (19 \<le> length data
           \<and> (\<forall>r \<in> set data. h_messages r \<noteq> []
                 \<and> (\<forall>m \<in> set (h_messages r). \<not> isl (content_text (content m))))
           \<and> log_messages c \<noteq> []
           \<and> (\<forall>m \<in> set (log_messages c). \<not> isl (content_text (content m)))
           \<and> (\<forall>qs. \<not> isl (embed_res env qs)) \<longrightarrow>
           (\<exists>embs md. Bulk_created embs md \<in> set (snd (create_nomic_map env cn c))))"
proof -
  have few: "create_nomic_map env cn c = (Inr None, [])" if "length data < 19"
    using assms that by (simp add: create_nomic_map_def create_map_try_def)
  have rows: "19 \<le> length data
            \<and> length md = (if \<exists>r \<in> set data. h_convo_id r = log_conversation_id c
                            then length data else length data + 1)
            \<and> map row_id md = map (\<lambda>k. Whole (1 + int k)) [0..<length md]
            \<and> (\<forall>k < length data.
                  conversation_id (md ! k) = h_convo_id (data ! k)
                  \<and> (h_convo_id (data ! k) \<noteq> log_conversation_id c \<longrightarrow>
                       append_lines [] (h_messages (data ! k)) = Inr (conversation (md ! k))))
            \<and> ((\<forall>r \<in> set data. h_convo_id r \<noteq> log_conversation_id c) \<longrightarrow>
                  conversation_id (md ! length data) = log_conversation_id c
                  \<and> append_lines [] (log_messages c) = Inr (conversation (md ! length data)))"
    if ev: "Bulk_created embs md \<in> set (snd (create_nomic_map env cn c))" for embs md
  proof -
    from create_nomic_map_Bulk_created[OF ev] assms(3) obtain uq where
      many: "19 \<le> length data" and asm: "assemble (map_clock env) cn c data = Inr (uq, md)"
      by auto
    note a = assemble_Inr[OF asm]
    have row: "\<exists>fq. row_metadata (map_clock env) c (1 + int k) (data ! k)
             = Inr (fq, md ! k, h_convo_id (data ! k) = log_conversation_id c)"
      if "k < length data" for k using a(3) that by blast
    have last: "log_row (map_clock env) cn c (1 + int (length data))
                  = Inr (uq ! length data, md ! length data)"
      if "\<forall>r \<in> set data. h_convo_id r \<noteq> log_conversation_id c"
      using a(4) that by blast
    have ids: "row_id (md ! k) = Whole (1 + int k)" if k: "k < length md" for k
    proof (cases "k < length data")
      case True
      from row[OF True] show ?thesis by (auto dest: row_metadata_fields(1))
    next
      case False
      with k a(1) have none: "\<forall>r \<in> set data. h_convo_id r \<noteq> log_conversation_id c"
        and eq: "k = length data" by (auto split: if_splits)
      from last[OF none] show ?thesis unfolding eq by (rule log_row_fields(1))
    qed
    have idmap: "map row_id md = map (\<lambda>k. Whole (1 + int k)) [0..<length md]"
      by (rule nth_equalityI) (simp_all add: ids)
    have hist: "conversation_id (md ! k) = h_convo_id (data ! k)
                  \<and> (h_convo_id (data ! k) \<noteq> log_conversation_id c \<longrightarrow>
                       append_lines [] (h_messages (data ! k)) = Inr (conversation (md ! k)))"
      if k: "k < length data" for k
    proof -
      from row[OF k] obtain fq where
        r: "row_metadata (map_clock env) c (1 + int k) (data ! k)
             = Inr (fq, md ! k, h_convo_id (data ! k) = log_conversation_id c)" by blast
      from row_metadata_fields(2)[OF r] row_metadata_fields(10)[OF r]
      show ?thesis by auto
    qed
    have added: "conversation_id (md ! length data) = log_conversation_id c
                  \<and> append_lines [] (log_messages c) = Inr (conversation (md ! length data))"
      if none: "\<forall>r \<in> set data. h_convo_id r \<noteq> log_conversation_id c"
      using log_row_fields(2,5)[OF last[OF none]] by simp
    show ?thesis using many a(1) idmap hist added by blast
  qed
  have progress: "\<exists>embs md. Bulk_created embs md \<in> set (snd (create_nomic_map env cn c))"
    if many: "19 \<le> length data"
      and r1: "\<forall>r \<in> set data. h_messages r \<noteq> []
                 \<and> (\<forall>m \<in> set (h_messages r). \<not> isl (content_text (content m)))"
      and r2: "log_messages c \<noteq> []"
      and r3: "\<forall>m \<in> set (log_messages c). \<not> isl (content_text (content m))"
      and r4: "\<forall>qs. \<not> isl (embed_res env qs)"
  proof -
    from assemble_readable[OF r1 r2 r3] obtain uq md where
      asm: "assemble (map_clock env) cn c data = Inr (uq, md)" by (metis surj_pair)
    from r4 have "\<not> isl (embed_res env uq)" by blast
    then obtain embs where "embed_res env uq = Inr embs"
      by (cases "embed_res env uq") auto
    from create_nomic_map_progress[OF assms many asm this] show ?thesis by blast
  qed
  show ?thesis using few rows progress by blast
qed


lemma ex_boot_setup:
  "map_login_res ex_remote_boot = None" "client_res ex_remote_boot = None"
  "query_res ex_remote_boot = Inr ex_history"
  "map_login_res ex_remote_boot_c2 = None" "client_res ex_remote_boot_c2 = None"
  "query_res ex_remote_boot_c2 = Inr ex_history_c2"
  "map_login_res ex_remote_no_map = None" "client_res ex_remote_no_map = None"
  "query_res ex_remote_no_map = Inr []"
  by (simp_all add: ex_remote_boot_def ex_remote_boot_c2_def ex_remote_no_map_def ex_remote_def)

lemma ex_history_ids:
  "length ex_history = 19" "length ex_history_c2 = 19"
  "\<not> (\<exists>r \<in> set ex_history. h_convo_id r = log_conversation_id ex_convo)"
  "h_convo_id (ex_history_c2 ! 2) = log_conversation_id ex_convo"
  by (simp_all add: ex_history_def ex_history_c2_def ex_ids_def ex_hist_row_def ex_convo_def)

theorem create_nomic_map_threshold_and_rows_witness:
  "map_login_res ex_remote_boot = None \<and> client_res ex_remote_boot = None
   \<and> query_res ex_remote_boot = Inr ex_history \<and> length ex_history = 19
   \<and> Bulk_created (replicate 20 30) ex_bulk
        \<in> set (snd (create_nomic_map ex_remote_boot ''CS101'' ex_convo))
   \<and> length ex_bulk = 20
   \<and> map row_id ex_bulk = map (\<lambda>k. Whole (1 + int k)) [0..<20]
   \<and> query_res ex_remote_boot_c2 = Inr ex_history_c2 \<and> length ex_history_c2 = 19
   \<and> Bulk_created (replicate 19 30) ex_bulk_c2
        \<in> set (snd (create_nomic_map ex_remote_boot_c2 ''CS101'' ex_convo))
   \<and> length ex_bulk_c2 = 19
   \<and> query_res ex_remote_no_map = Inr []
   \<and> create_nomic_map ex_remote_no_map ''CS101'' ex_convo = (Inr None, [])"
proof -
  have e20: "Bulk_created (replicate 20 30) ex_bulk
        \<in> set (snd (create_nomic_map ex_remote_boot ''CS101'' ex_convo))"
    by (simp add: ex_boot_run)
  have e19: "Bulk_created (replicate 19 30) ex_bulk_c2
        \<in> set (snd (create_nomic_map ex_remote_boot_c2 ''CS101'' ex_convo))"
    by (simp add: ex_boot_c2_run)
  note t20 = create_nomic_map_threshold_and_rows[OF ex_boot_setup(1,2,3), of "''CS101''" ex_convo,
      THEN conjunct2, THEN conjunct1, rule_format, OF e20]
  from t20[THEN conjunct2, THEN conjunct1]
  have l20: "length ex_bulk = 20" using ex_history_ids(1,3) by simp
  from t20[THEN conjunct2, THEN conjunct2, THEN conjunct1]
  have m: "map row_id ex_bulk = map (\<lambda>k. Whole (1 + int k)) [0..<20]"
    unfolding l20 .
  note t19 = create_nomic_map_threshold_and_rows[OF ex_boot_setup(4,5,6), of "''CS101''" ex_convo,
      THEN conjunct2, THEN conjunct1, rule_format, OF e19]
  have "\<exists>r \<in> set ex_history_c2. h_convo_id r = log_conversation_id ex_convo"
    by (simp add: ex_history_c2_def ex_ids_def ex_hist_row_def ex_convo_def)
  with t19[THEN conjunct2, THEN conjunct1]
  have l19: "length ex_bulk_c2 = 19" using ex_history_ids(2) by simp
  from create_nomic_map_threshold_and_rows[OF ex_boot_setup(7,8,9), of "''CS101''" ex_convo,
      THEN conjunct1]
  have none: "create_nomic_map ex_remote_no_map ''CS101'' ex_convo = (Inr None, [])"
    by simp
  show ?thesis
    using ex_boot_setup(1,2,3,6,9) ex_history_ids(1,2) e20 e19 l20 l19 m none by simp
qed


text \<open>
  C9, as amended. Let \<open>create_nomic_map\<close> create a map from the rows \<open>data\<close>, and
  let row \<open>k\<close> of \<open>data\<close> have the id of the conversation being logged. Then the map
  gets one row for each row of \<open>data\<close>, with the same conversation ids in the same
  order, and no row more. The transcript of row \<open>k\<close> is what the formatter makes of the
  messages of the row of \<open>data\<close>, followed by the lines of all messages of the
  conversation being logged. For a conversation of at most two messages that is what the
  update of \<open>log_convo_to_nomic\<close> appends.
\<close>

theorem create_nomic_map_appends_all_messages:
  assumes "Bulk_created embs md \<in> set (snd (create_nomic_map env cn c))"
    and "query_res env = Inr data"
    and "k < length data"
    and "h_convo_id (data ! k) = log_conversation_id c"
  shows "map conversation_id md = map h_convo_id data
       \<and> (\<exists>t tail. append_lines [] (h_messages (data ! k)) = Inr t
              \<and> append_lines [] (log_messages c) = Inr tail
              \<and> conversation (md ! k) = t @ tail
              \<and> (length (log_messages c) \<le> 2 \<longrightarrow>
                    append_lines t (last2 (log_messages c)) = Inr (conversation (md ! k))))"
proof -
  from create_nomic_map_Bulk_created[OF assms(1)] assms(2) obtain uq where
    asm: "assemble (map_clock env) cn c data = Inr (uq, md)" by auto
  note a = assemble_Inr[OF asm]
  have some: "\<exists>r \<in> set data. h_convo_id r = log_conversation_id c"
    using assms(3,4) nth_mem by blast
  with a(1) have len: "length md = length data" by simp
  have ids: "conversation_id (md ! j) = h_convo_id (data ! j)" if "j < length data" for j
    using a(3) that by (blast dest: row_metadata_fields(2))
  have same: "map conversation_id md = map h_convo_id data"
    by (rule nth_equalityI) (simp_all add: len ids)
  from a(3) assms(3) obtain fq where
    r: "row_metadata (map_clock env) c (1 + int k) (data ! k)
          = Inr (fq, md ! k, h_convo_id (data ! k) = log_conversation_id c)" by blast
  from row_metadata_fields(10)[OF r] assms(4) obtain t where
    t: "append_lines [] (h_messages (data ! k)) = Inr t"
    and m: "append_lines t (log_messages c) = Inr (conversation (md ! k))" by auto
  from append_lines_Inr[OF m] obtain tail where
    tail: "append_lines [] (log_messages c) = Inr tail" "conversation (md ! k) = t @ tail"
    by blast
  have short: "append_lines t (last2 (log_messages c)) = Inr (conversation (md ! k))"
    if "length (log_messages c) \<le> 2"
    using m last2_short[OF that] by simp
  show ?thesis using same t tail short by blast
qed

lemma ex_c2_row_lines:
  "append_lines [] (h_messages (ex_history_c2 ! 2)) = Inr ex_hello"
  "append_lines ex_hello (last2 (log_messages ex_convo)) = Inr (ex_hello @ ex_lines2)"
  "append_lines [] (log_messages ex_convo) = Inr ex_lines3"
  "conversation (ex_bulk_c2 ! 2) = ex_hello @ ex_lines3"
  "ex_hello @ ex_lines3 \<noteq> ex_hello @ ex_lines2"
  by (simp_all add: ex_history_c2_def ex_ids_def ex_hist_row_def ex_hello_def ex_lines2_def
      ex_lines3_def ex_convo_def ex_messages_def ex_bulk_c2_def ex_bulk_row_def last2_def
      message_line_def content_text_def newline_def emoji_user_def emoji_other_def)

theorem create_nomic_map_appends_all_messages_witness:
  "Bulk_created (replicate 19 30) ex_bulk_c2
       \<in> set (snd (create_nomic_map ex_remote_boot_c2 ''CS101'' ex_convo))
   \<and> query_res ex_remote_boot_c2 = Inr ex_history_c2
   \<and> 2 < length ex_history_c2
   \<and> h_convo_id (ex_history_c2 ! 2) = log_conversation_id ex_convo
   \<and> map conversation_id ex_bulk_c2 = map h_convo_id ex_history_c2
   \<and> append_lines [] (h_messages (ex_history_c2 ! 2)) = Inr ex_hello
   \<and> append_lines [] (log_messages ex_convo) = Inr ex_lines3
   \<and> conversation (ex_bulk_c2 ! 2) = ex_hello @ ex_lines3"
proof -
  have e19: "Bulk_created (replicate 19 30) ex_bulk_c2
        \<in> set (snd (create_nomic_map ex_remote_boot_c2 ''CS101'' ex_convo))"
    by (simp add: ex_boot_c2_run)
  have k: "2 < length ex_history_c2" by (simp add: ex_history_ids(2))
  from create_nomic_map_appends_all_messages[OF e19 ex_boot_setup(6) k ex_history_ids(4),
      THEN conjunct1]
  have "map conversation_id ex_bulk_c2 = map h_convo_id ex_history_c2" .
  with e19 ex_boot_setup(6) k ex_history_ids(4) ex_c2_row_lines(1,3,4) show ?thesis by simp
qed

text \<open>
  C9 as stated fails. The third of the nineteen rows is the conversation \<open>c-2\<close>, which
  is logged with three messages. The transcript of the third row of the new map is the
  transcript of the stored row followed by the lines of all three messages; the update of
  \<open>log_convo_to_nomic\<close> would append the lines of the last two.
\<close>

theorem create_nomic_map_last_two_counterexample:
  "create_nomic_map ex_remote_boot_c2 ''CS101'' ex_convo
     = (Inr (Some ''Successfully created Nomic map for CS101''),
        [Embedded (replicate 19 (Text ''Hello'')), Bulk_created (replicate 19 30) ex_bulk_c2])
   \<and> query_res ex_remote_boot_c2 = Inr ex_history_c2
   \<and> h_convo_id (ex_history_c2 ! 2) = log_conversation_id ex_convo
   \<and> append_lines [] (h_messages (ex_history_c2 ! 2)) = Inr ex_hello
   \<and> append_lines ex_hello (last2 (log_messages ex_convo)) = Inr (ex_hello @ ex_lines2)
   \<and> conversation (ex_bulk_c2 ! 2) = ex_hello @ ex_lines3
   \<and> conversation (ex_bulk_c2 ! 2) \<noteq> ex_hello @ ex_lines2"
  using ex_boot_c2_run ex_boot_setup(6) ex_history_ids(4) ex_c2_row_lines by simp

subsection \<open>A course without a map\<close>

lemma add_point_no_create_print:
  "Printed_create_map \<notin> set (snd (add_point env cn e m))"
  unfolding add_point_def by (simp split: option.splits)

lemma log_convo_try_no_create_print:
  "Printed_create_map \<notin> set (snd (log_convo_try env cn c))"
  using add_point_no_create_print[of env cn]
  unfolding log_convo_try_def update_point_def insert_point_def
  by (simp add: Let_def case_prod_beta split: sum.splits option.splits)

lemma create_nomic_map_no_create_print:
  "Printed_create_map \<notin> set (snd (create_nomic_map env cn c))"
  unfolding create_nomic_map_def create_map_try_def
  by (simp add: case_prod_beta split: sum.splits option.splits)

lemma retried_no_create_print:
  assumes "\<forall>j<k. login_res (envs j) = None
               \<and> fst (log_convo_try (envs j) cn c) = Inl (x j)
               \<and> str_exn (x j) \<in> set LOCK_EXCEPTIONS"
  shows "Printed_create_map
           \<notin> set (retried envs (Some cn) (dict_of c) (\<lambda>j. str_exn (x j)) k)"
proof -
  have "Printed_create_map \<notin> set (snd (log_convo_body (envs j) (Some cn) (dict_of c)))"
    if "j < k" for j
  proof -
    from assms that have "login_res (envs j) = None"
      "fst (log_convo_try (envs j) cn c) = Inl (x j)" "str_exn (x j) \<in> set LOCK_EXCEPTIONS"
      by simp_all
    from log_convo_body_lock[OF this] log_convo_try_no_create_print[of "envs j" cn c]
    show ?thesis by simp
  qed
  then show ?thesis by (auto simp: retried_def)
qed

text \<open>
  C7, as amended. Let the \<open>try\<close> block of a call of the body, the first or one made
  after calls whose \<open>try\<close> block raised a lock message, raise the exception with the
  missing-map message, and let the login and the client of the relational store in
  \<open>create_nomic_map\<close> succeed in that call. Then the decorated function calls
  \<open>create_nomic_map\<close>, once, and returns \<open>None\<close> without raising. The handler
  \<open>giveup_hdlr\<close> is not asked about the missing-map message, there is no pause after
  it and no further call of the body: after the events of the calls that raised lock
  messages come those of this \<open>try\<close> block, the announcement of line 190 and the
  events of that one call of \<open>create_nomic_map\<close>.
\<close>

theorem missing_map_creates_map_once:
  assumes "k < max_tries"
    and "\<forall>j<k. login_res (envs j) = None
               \<and> fst (log_convo_try (envs j) cn c) = Inl (x j)
               \<and> str_exn (x j) \<in> set LOCK_EXCEPTIONS"
    and "login_res (envs k) = None"
    and "map_login_res (envs k) = None" and "client_res (envs k) = None"
    and "log_convo_try (envs k) cn c = (Inl e, evs)"
    and "str_exn e = NOT_CONFIGURED"
  shows "log_convo_to_nomic envs (Some cn) (dict_of c)
           = (Inr None,
              retried envs (Some cn) (dict_of c) (\<lambda>j. str_exn (x j)) k
                @ evs @ Printed_create_map # snd (create_nomic_map (envs k) cn c))
         \<and> count_list (snd (log_convo_to_nomic envs (Some cn) (dict_of c))) Printed_create_map = 1
         \<and> waits (snd (log_convo_to_nomic envs (Some cn) (dict_of c)))
             = map backoff_strategy [0..<k]
         \<and> printed (snd (log_convo_to_nomic envs (Some cn) (dict_of c)))
             = map (\<lambda>j. str_exn (x j)) [0..<k]"
proof -
  let ?l = "\<lambda>j. str_exn (x j)"
  let ?pre = "retried envs (Some cn) (dict_of c) ?l k"
  from create_nomic_map_no_raise[OF assms(4,5), of cn c] obtain r evs' where
    cm: "create_nomic_map (envs k) cn c = (Inr r, evs')"
    by (cases "create_nomic_map (envs k) cn c") auto
  have body: "log_convo_body (envs k) (Some cn) (dict_of c)
                = (Inr None, evs @ Printed_create_map # evs')"
    using assms(3,6,7) cm by (simp add: log_convo_body_dict log_convo_handled_def)
  have locks: "\<forall>j<k. fst (log_convo_body (envs j) (Some cn) (dict_of c)) = Inl (Wrapped (?l j))
               \<and> ?l j \<in> set LOCK_EXCEPTIONS"
    using assms(2) by (simp add: log_convo_body_lock)
  have at: "fst (log_convo_body (envs k) (Some cn) (dict_of c)) = Inr None"
    using body by simp
  note t = wrapped_failures_are_retried[OF assms(1) locks, THEN conjunct1, rule_format, OF at]
  have eq: "log_convo_to_nomic envs (Some cn) (dict_of c)
              = (Inr None, ?pre @ evs @ Printed_create_map # evs')"
    using t[THEN conjunct1] body by simp
  have "Printed_create_map \<notin> set ?pre"
    using assms(2) by (rule retried_no_create_print)
  moreover have "Printed_create_map \<notin> set evs"
    using log_convo_try_no_create_print[of "envs k" cn c] assms(6) by simp
  moreover have "Printed_create_map \<notin> set evs'"
    using create_nomic_map_no_create_print[of "envs k" cn c] cm by simp
  ultimately have cnt: "count_list (?pre @ evs @ Printed_create_map # evs') Printed_create_map = 1"
    by (simp add: count_list_0_iff)
  have raised: "fst (log_convo_body (envs j) (Some cn) (dict_of c)) = Inl (Wrapped (?l j))"
    if "j \<in> set [0..<k]" for j
    using locks that by simp
  have "printed ?pre = map ?l [0..<k]"
    unfolding retried_def using raised by (rule retried_calls_events(2))
  moreover have "printed (evs @ Printed_create_map # evs') = []"
    using log_convo_body_quiet[of "envs k" cn c] body by simp
  ultimately have pr: "printed (?pre @ evs @ Printed_create_map # evs') = map ?l [0..<k]"
    by (simp add: printed_append)
  show ?thesis using eq cm cnt pr t[THEN conjunct2] by simp
qed

lemma ex_boot_try:
  "log_convo_try ex_remote_boot ''CS101'' ex_convo = (Inl (RemoteError NOT_CONFIGURED), [])"
  by (simp add: ex_remote_boot_def ex_remote_no_map_def ex_remote_def log_convo_try_def)

theorem missing_map_creates_map_once_witness:
  "2 < max_tries
   \<and> login_res (ex_locked_then_boot 0) = None \<and> login_res (ex_locked_then_boot 1) = None
   \<and> fst (log_convo_try (ex_locked_then_boot 0) ''CS101'' ex_convo)
       = Inl (RemoteError ex_lock_message)
   \<and> fst (log_convo_try (ex_locked_then_boot 1) ''CS101'' ex_convo)
       = Inl (RemoteError ex_lock_message)
   \<and> str_exn (RemoteError ex_lock_message) \<in> set LOCK_EXCEPTIONS
   \<and> login_res (ex_locked_then_boot 2) = None \<and> map_login_res (ex_locked_then_boot 2) = None
   \<and> client_res (ex_locked_then_boot 2) = None
   \<and> log_convo_try (ex_locked_then_boot 2) ''CS101'' ex_convo
       = (Inl (RemoteError NOT_CONFIGURED), [])
   \<and> str_exn (RemoteError NOT_CONFIGURED) = NOT_CONFIGURED
   \<and> log_convo_to_nomic ex_locked_then_boot (Some ''CS101'') (dict_of ex_convo)
       = (Inr None,
          [Printed_giveup ex_lock_message, Backoff (3 / 2) 1,
           Printed_giveup ex_lock_message, Backoff 15 2,
           Printed_create_map,
           Embedded (replicate 19 (Text ''Hello'') @ [Text ''What is a heap?'']),
           Bulk_created (replicate 20 30) ex_bulk])
   \<and> count_list (snd (log_convo_to_nomic ex_locked_then_boot (Some ''CS101'') (dict_of ex_convo)))
         Printed_create_map = 1
   \<and> waits (snd (log_convo_to_nomic ex_locked_then_boot (Some ''CS101'') (dict_of ex_convo)))
       = [3 / 2, 15]"
proof -
  let ?x = "\<lambda>j::nat. RemoteError ex_lock_message"
  have k2: "2 < max_tries" by (simp add: max_tries_def)
  have msg: "str_exn (RemoteError ex_lock_message) \<in> set LOCK_EXCEPTIONS"
    using ex_lock_message_listed by simp
  have login: "login_res (ex_locked_then_boot 0) = None" "login_res (ex_locked_then_boot 1) = None"
    by (simp_all add: ex_locked_then_boot_def ex_login_ok)
  have locked:
    "fst (log_convo_try (ex_locked_then_boot 0) ''CS101'' ex_convo)
       = Inl (RemoteError ex_lock_message)"
    "fst (log_convo_try (ex_locked_then_boot 1) ''CS101'' ex_convo)
       = Inl (RemoteError ex_lock_message)"
    by (simp_all add: ex_locked_then_boot_def ex_locked_try)
  have s: "login_res (ex_locked_then_boot 2) = None" "map_login_res (ex_locked_then_boot 2) = None"
    "client_res (ex_locked_then_boot 2) = None"
    by (simp_all add: ex_locked_then_boot_def ex_remote_boot_def ex_remote_no_map_def ex_remote_def)
  have tr: "log_convo_try (ex_locked_then_boot 2) ''CS101'' ex_convo
       = (Inl (RemoteError NOT_CONFIGURED), [])"
    by (simp add: ex_locked_then_boot_def ex_boot_try)
  have m: "str_exn (RemoteError NOT_CONFIGURED) = NOT_CONFIGURED" by simp
  have h: "\<forall>j<2. login_res (ex_locked_then_boot j) = None
                  \<and> fst (log_convo_try (ex_locked_then_boot j) ''CS101'' ex_convo) = Inl (?x j)
                  \<and> str_exn (?x j) \<in> set LOCK_EXCEPTIONS"
    using login locked msg by (simp add: less_Suc_eq numeral_2_eq_2)
  have body: "log_convo_body (ex_locked_then_boot 0) (Some ''CS101'') (dict_of ex_convo)
                = (Inl (Wrapped ex_lock_message), [])"
    "log_convo_body (ex_locked_then_boot (Suc 0)) (Some ''CS101'') (dict_of ex_convo)
                = (Inl (Wrapped ex_lock_message), [])"
    by (simp_all add: ex_locked_then_boot_def ex_locked_body)
  have up: "[0..<2] = [0, Suc 0]" by (simp add: upt_rec)
  have cm: "create_nomic_map (ex_locked_then_boot 2) ''CS101'' ex_convo =
     (Inr (Some ''Successfully created Nomic map for CS101''),
      [Embedded (replicate 19 (Text ''Hello'') @ [Text ''What is a heap?'']),
       Bulk_created (replicate 20 30) ex_bulk])"
    by (simp add: ex_locked_then_boot_def ex_boot_run)
  note t = missing_map_creates_map_once[OF k2 h s tr m]
  have a: "log_convo_to_nomic ex_locked_then_boot (Some ''CS101'') (dict_of ex_convo)
       = (Inr None,
          [Printed_giveup ex_lock_message, Backoff (3 / 2) 1,
           Printed_giveup ex_lock_message, Backoff 15 2,
           Printed_create_map,
           Embedded (replicate 19 (Text ''Hello'') @ [Text ''What is a heap?'']),
           Bulk_created (replicate 20 30) ex_bulk])"
    using t[THEN conjunct1] by (simp add: retried_def up body cm backoff_strategy_def)
  have b: "count_list (snd (log_convo_to_nomic ex_locked_then_boot (Some ''CS101'') (dict_of ex_convo)))
         Printed_create_map = 1"
    using t[THEN conjunct2, THEN conjunct1] .
  have c: "waits (snd (log_convo_to_nomic ex_locked_then_boot (Some ''CS101'') (dict_of ex_convo)))
       = [3 / 2, 15]"
    using t[THEN conjunct2, THEN conjunct2, THEN conjunct1] by (simp add: up backoff_strategy_def)
  show ?thesis using k2 login locked msg s tr m a b c by simp
qed

text \<open>
  C7 as stated fails in its last part. When the client of the relational store cannot
  be made, line 240 of \<open>create_nomic_map\<close> raises outside every \<open>try\<close>, inside
  the \<open>except\<close> clause of \<open>log_convo_to_nomic\<close>; \<open>giveup_hdlr\<close> raises
  \<open>TypeError\<close> on that exception and the caller gets it.
\<close>

theorem missing_map_raises_counterexample:
  "log_convo_try ex_remote_no_client ''CS101'' ex_convo = (Inl (RemoteError NOT_CONFIGURED), [])
   \<and> log_convo_to_nomic (\<lambda>k. ex_remote_no_client) (Some ''CS101'') (dict_of ex_convo)
       = (Inl TypeError, [Printed_create_map])"
proof -
  have t: "log_convo_try ex_remote_no_client ''CS101'' ex_convo
             = (Inl (RemoteError NOT_CONFIGURED), [])"
    by (simp add: ex_remote_no_client_def ex_remote_no_map_def ex_remote_def log_convo_try_def)
  have cm: "create_nomic_map ex_remote_no_client ''CS101'' ex_convo
             = (Inl (RemoteError ''supabase_url is required''), [])"
    by (simp add: ex_remote_no_client_def ex_remote_no_map_def ex_remote_def create_nomic_map_def)
  have login: "login_res ex_remote_no_client = None"
    by (simp add: ex_remote_no_client_def ex_remote_no_map_def ex_remote_def)
  have "log_convo_body ex_remote_no_client (Some ''CS101'') (dict_of ex_convo)
          = (Inl (RemoteError ''supabase_url is required''), [Printed_create_map])"
    using t cm login by (simp add: log_convo_body_dict log_convo_handled_def)
  then have "log_convo_to_nomic (\<lambda>k. ex_remote_no_client) (Some ''CS101'') (dict_of ex_convo)
       = (Inl TypeError, [Printed_create_map])"
    by (simp add: log_convo_to_nomic_def max_tries_def eval_nat_numeral giveup_hdlr_def)
  with t show ?thesis by simp
qed


end
